theory Spec2Isabelle
  imports Complex_Main "HOL-Library.Sublist"
begin

section \<open>The Gong export client: video acquisition and download\<close>

text \<open>
  A shallow embedding of \<^verbatim>\<open>src/utils/videoDownloader.js\<close> (class \<^verbatim>\<open>VideoDownloader\<close>),
  of \<^verbatim>\<open>getSignedMediaUrl\<close> of the API client (class \<^verbatim>\<open>GongExport\<close>) and of the
  refresh callback that \<^verbatim>\<open>export.js\<close> hands to the downloader.

  The JavaScript is asynchronous but strictly sequential (every promise is awaited
  before the next statement), so it is modelled by explicit state passing over a
  \<open>world\<close>: the file system, the clock, the rate-limit counters of the downloader
  instance, and two logs (the HTTP requests issued and the timers awaited). What the
  outside does is an immutable \<open>env\<close>: the answer to the n-th HTTP request, which
  directory creations and file writes fail, and the two date renderings of the
  JavaScript runtime. Console and logger output is not modelled.

  The clock counts whole milliseconds, as \<^verbatim>\<open>Date.now()\<close> does; a delay is a JavaScript
  number, here a rational (\<^verbatim>\<open>1000 / callsPerSecond\<close> is a division). A timer runs for
  the number of milliseconds that Node gives it (\<open>timer_ms\<close> below) and the code
  resumes exactly then; HTTP requests take no time. Paths are those of a POSIX system.
\<close>

subsection \<open>JavaScript values\<close>

text \<open>A value that may be \<^verbatim>\<open>null\<close>/\<^verbatim>\<open>undefined\<close> is an option; the empty string is falsy.\<close>

definition truthy :: "string option \<Rightarrow> bool" where
  "truthy s = (case s of None \<Rightarrow> False | Some x \<Rightarrow> x \<noteq> [])"

text \<open>Interpolation of a possibly undefined string into a template literal.\<close>

definition template :: "string option \<Rightarrow> string" where
  "template s = (case s of None \<Rightarrow> ''undefined'' | Some x \<Rightarrow> x)"

text \<open>\<^verbatim>\<open>String.prototype.includes\<close>.\<close>

fun str_includes :: "string \<Rightarrow> string \<Rightarrow> bool" where
  "str_includes [] sub = (sub = [])"
| "str_includes (c # cs) sub = (take (length sub) (c # cs) = sub \<or> str_includes cs sub)"

text \<open>
  \<^verbatim>\<open>toLowerCase\<close> and the replacement \<^verbatim>\<open>replace(/[^a-z0-9]/gi, '_')\<close>, on ASCII:
  a \<open>char\<close> is a byte, so a character outside ASCII is replaced byte by byte
  where JavaScript replaces it code unit by code unit.
\<close>

definition is_upper :: "char \<Rightarrow> bool" where
  "is_upper c = (65 \<le> (of_char c :: nat) \<and> (of_char c :: nat) \<le> 90)"

definition is_lower :: "char \<Rightarrow> bool" where
  "is_lower c = (97 \<le> (of_char c :: nat) \<and> (of_char c :: nat) \<le> 122)"

definition is_digit :: "char \<Rightarrow> bool" where
  "is_digit c = (48 \<le> (of_char c :: nat) \<and> (of_char c :: nat) \<le> 57)"

definition lower_char :: "char \<Rightarrow> char" where
  "lower_char c = (if is_upper c then char_of ((of_char c :: nat) + 32) else c)"

definition toLowerCase :: "string \<Rightarrow> string" where
  "toLowerCase s = map lower_char s"

definition sanitize_title :: "string \<Rightarrow> string" where
  "sanitize_title s =
     toLowerCase (map (\<lambda>c. if is_lower c \<or> is_upper c \<or> is_digit c then c else CHR ''_'') s)"

text \<open>
  \<^verbatim>\<open>parseInt(s, 10)\<close>: leading white space is skipped, then an optional sign, then the
  longest run of decimal digits; \<open>None\<close> is NaN (no digit found).
\<close>

definition is_space :: "char \<Rightarrow> bool" where
  "is_space c = ((of_char c :: nat) \<in> {9, 10, 11, 12, 13, 32})"

definition digits_value :: "string \<Rightarrow> int" where
  "digits_value ds = foldl (\<lambda>acc c. 10 * acc + (int (of_char c) - 48)) 0 ds"

definition parseInt10 :: "string \<Rightarrow> int option" where
  "parseInt10 s =
     (let s1 = dropWhile is_space s;
          neg = (s1 \<noteq> [] \<and> hd s1 = CHR ''-'');
          s2 = (if s1 \<noteq> [] \<and> (hd s1 = CHR ''-'' \<or> hd s1 = CHR ''+'') then tl s1 else s1);
          ds = takeWhile is_digit s2
      in if ds = [] then None
         else Some (if neg then - digits_value ds else digits_value ds))"

text \<open>The last element of \<^verbatim>\<open>url.split('/')\<close>: what follows the last slash.\<close>

definition last_segment :: "string \<Rightarrow> string" where
  "last_segment u = rev (takeWhile (\<lambda>c. c \<noteq> CHR ''/'') (rev u))"

text \<open>
  \<^verbatim>\<open>path.join(dir, name)\<close> of Node on POSIX: the arguments that are not empty are
  joined with a slash and the result is normalised. Normalisation drops empty segments
  and \<^verbatim>\<open>.\<close> segments, lets a \<^verbatim>\<open>..\<close> segment remove the segment before it (at the
  start of a relative path it stays, at the root it is dropped), keeps a leading and a
  trailing slash, and turns the empty path into \<^verbatim>\<open>.\<close>. So \<^verbatim>\<open>path.join(dir, '')\<close> is the
  directory itself.
\<close>

fun split_slash :: "string \<Rightarrow> string list" where
  "split_slash [] = [[]]"
| "split_slash (c # cs) =
     (if c = CHR ''/'' then [] # split_slash cs
      else (case split_slash cs of [] \<Rightarrow> [[c]] | x # xs \<Rightarrow> (c # x) # xs))"

fun normalize_segments :: "bool \<Rightarrow> string list \<Rightarrow> string list \<Rightarrow> string list" where
  "normalize_segments allowAboveRoot res [] = rev res"
| "normalize_segments allowAboveRoot res (s # ss) =
     (if s = [] \<or> s = ''.'' then normalize_segments allowAboveRoot res ss
      else if s = ''..''
      then (if res \<noteq> [] \<and> hd res \<noteq> ''..'' then normalize_segments allowAboveRoot (tl res) ss
            else if allowAboveRoot then normalize_segments allowAboveRoot (s # res) ss
            else normalize_segments allowAboveRoot res ss)
      else normalize_segments allowAboveRoot (s # res) ss)"

fun join_slash :: "string list \<Rightarrow> string" where
  "join_slash [] = []"
| "join_slash [s] = s"
| "join_slash (s # t # ss) = s @ ''/'' @ join_slash (t # ss)"

definition path_normalize :: "string \<Rightarrow> string" where
  "path_normalize p =
     (if p = [] then ''.''
      else (let isAbsolute = (hd p = CHR ''/'');
                trailingSeparator = (last p = CHR ''/'');
                body = join_slash (normalize_segments (\<not> isAbsolute) [] (split_slash p))
            in if body = []
               then (if isAbsolute then ''/'' else if trailingSeparator then ''./'' else ''.'')
               else (if isAbsolute then ''/'' else []) @ body
                      @ (if trailingSeparator then ''/'' else [])))"

definition path_join :: "string \<Rightarrow> string \<Rightarrow> string" where
  "path_join dir name =
     (if dir = [] \<and> name = [] then ''.''
      else path_normalize (if dir = [] then name
                           else if name = [] then dir else dir @ ''/'' @ name))"

subsection \<open>Errors, requests and responses\<close>

text \<open>
  What the code reads of an error: \<^verbatim>\<open>error.message\<close>, \<^verbatim>\<open>error.code\<close>, and of
  \<^verbatim>\<open>error.response\<close> the status and the \<^verbatim>\<open>retry-after\<close> header.
\<close>

record http_response =
  resp_status :: nat
  resp_retry_after :: "string option"

record js_error =
  err_message :: string
  err_code :: "string option"
  err_response :: "http_response option"

definition Error :: "string \<Rightarrow> js_error" where
  "Error msg = \<lparr>err_message = msg, err_code = None, err_response = None\<rparr>"

datatype http_method = GET | PUT | DELETE

record request =
  req_method :: http_method
  req_url :: string
  req_authorization :: "string option"
  req_content_type :: "string option"
  req_accept :: "string option"

text \<open>
  A request either resolves, and then the code reads at most the \<^verbatim>\<open>url\<close> field of
  the body (\<open>None\<close> when the body has none), or rejects with an error.
\<close>

datatype response = Resolved "string option" | Rejected js_error

subsection \<open>The environment and the world\<close>

record env =
  net :: "nat \<Rightarrow> request \<Rightarrow> response"
    \<comment> \<open>the answer to the n-th request of the run (counting from 0)\<close>
  stream_ends :: "nat \<Rightarrow> bool"
    \<comment> \<open>the body of the answer to the n-th request arrives whole; otherwise its
        stream stalls or breaks before the end (a download request that is never
        answered at all is the same to the downloader: it waits without end)\<close>
  mkdir_error :: "string \<Rightarrow> string option"
    \<comment> \<open>\<open>Some m\<close>: \<^verbatim>\<open>mkdirSync\<close> of that directory throws with message \<open>m\<close>\<close>
  write_error :: "string \<Rightarrow> string option"
    \<comment> \<open>\<open>Some m\<close>: writing that file fails with message \<open>m\<close>\<close>
  isoDate :: "string \<Rightarrow> string option"
    \<comment> \<open>\<^verbatim>\<open>new Date(s).toISOString().split('T')[0]\<close>; \<open>None\<close> when it throws\<close>
  isoNow :: "int \<Rightarrow> string"
    \<comment> \<open>\<^verbatim>\<open>new Date().toISOString().replace(/:/g, '-')\<close> at that clock value\<close>

record rate_limit =
  callsPerSecond :: nat
  callsPerDay :: nat
  currentCalls :: nat
  resetTime :: int
  lastCallTime :: int

text \<open>Which \<^verbatim>\<open>setTimeout\<close> of the source a logged delay belongs to.\<close>

datatype timer = DailyQuota | Spacing | RateLimited | RetryBackoff

text \<open>
  The world: the paths at which something exists (what \<^verbatim>\<open>existsSync\<close> answers), the
  clock, the rate-limit state of the downloader, the requests issued, each with the
  clock value at which it left, and the delays passed to \<^verbatim>\<open>setTimeout\<close>.
\<close>

record world =
  files :: "string set"
  now :: int
  rateLimit :: rate_limit
  requests :: "(int \<times> request) list"
  sleeps :: "(timer \<times> rat option) list"

text \<open>
  The milliseconds a timer of Node runs for a delay (\<open>None\<close> is NaN): a delay that is
  not a number, is below 1 or is above 2147483647 is set to 1, and any other delay is
  truncated to an integer.
\<close>

definition timer_ms :: "rat option \<Rightarrow> int" where
  "timer_ms d = (case d of None \<Rightarrow> 1
                 | Some x \<Rightarrow> if x < 1 \<or> 2147483647 < x then 1 else \<lfloor>x\<rfloor>)"

text \<open>\<^verbatim>\<open>await new Promise(resolve => setTimeout(resolve, d))\<close>.\<close>

definition setTimeout :: "timer \<Rightarrow> rat option \<Rightarrow> world \<Rightarrow> world" where
  "setTimeout k d w = w\<lparr>now := now w + timer_ms d, sleeps := sleeps w @ [(k, d)]\<rparr>"

text \<open>
  Issuing a request: it is logged with the clock value at which it is issued, and the
  environment answers by its position in the log.
\<close>

definition send :: "env \<Rightarrow> request \<Rightarrow> world \<Rightarrow> response \<times> world" where
  "send e r w = (net e (length (requests w)) r, w\<lparr>requests := requests w @ [(now w, r)]\<rparr>)"

subsection \<open>The downloader instance\<close>

text \<open>
  The refresh callback is a function of the call id that may issue requests and wait:
  it takes the world and returns the new one, with a URL, \<^verbatim>\<open>null\<close> or an exception. It
  is taken to return.
\<close>

datatype hook_result = Hook_returned "string option" | Hook_threw js_error

record downloader =
  apiKey :: string
  basicToken :: string
  customStoragePath :: "string option"
  refreshUrlCallback :: "(string \<Rightarrow> world \<Rightarrow> hook_result \<times> world) option"

text \<open>The rate-limit state the constructor sets, at clock value \<open>t\<close>.\<close>

definition initial_rateLimit :: "int \<Rightarrow> rate_limit" where
  "initial_rateLimit t =
     \<lparr>callsPerSecond = 2, callsPerDay = 10000, currentCalls = 0,
      resetTime = t + 24 * 60 * 60 * 1000, lastCallTime = 0\<rparr>"

subsection \<open>respectRateLimit\<close>

definition minTimeBetweenCalls :: "rate_limit \<Rightarrow> rat" where
  "minTimeBetweenCalls rl = 1000 / of_nat (callsPerSecond rl) + 50"

definition reset_daily :: "world \<Rightarrow> world" where
  "reset_daily w =
     (if now w > resetTime (rateLimit w)
      then w\<lparr>rateLimit := (rateLimit w)\<lparr>currentCalls := 0,
                                        resetTime := now w + 24 * 60 * 60 * 1000\<rparr>\<rparr>
      else w)"

definition await_daily :: "world \<Rightarrow> world" where
  "await_daily w =
     (if currentCalls (rateLimit w) \<ge> callsPerDay (rateLimit w)
      then (let waitTime = resetTime (rateLimit w) - now w;
                w1 = setTimeout DailyQuota (Some (of_int waitTime)) w
            in w1\<lparr>rateLimit := (rateLimit w1)\<lparr>currentCalls := 0\<rparr>\<rparr>)
      else w)"

definition await_spacing :: "world \<Rightarrow> world" where
  "await_spacing w =
     (let timeSinceLastCall = now w - lastCallTime (rateLimit w);
          minTime = minTimeBetweenCalls (rateLimit w)
      in if of_int timeSinceLastCall < minTime
         then setTimeout Spacing (Some (minTime - of_int timeSinceLastCall)) w
         else w)"

definition respectRateLimit :: "world \<Rightarrow> world" where
  "respectRateLimit w =
     (let w3 = await_spacing (await_daily (reset_daily w))
      in w3\<lparr>rateLimit := (rateLimit w3)\<lparr>lastCallTime := now w3,
                                          currentCalls := currentCalls (rateLimit w3) + 1\<rparr>\<rparr>)"

subsection \<open>downloadVideo\<close>

text \<open>The default of \<^verbatim>\<open>path.join(__dirname, '../../exports/videos')\<close> and its parent.\<close>

definition exports_dir :: string where
  "exports_dir = ''exports''"

definition default_videos_dir :: string where
  "default_videos_dir = path_join exports_dir ''videos''"

definition downloadsDir :: "downloader \<Rightarrow> string" where
  "downloadsDir vd =
     (if truthy (customStoragePath vd) then the (customStoragePath vd) else default_videos_dir)"

text \<open>
  Lines 66 to 75: create the directory when it is missing; a failure is rethrown. Of
  the directories that \<^verbatim>\<open>mkdirSync\<close> creates with \<^verbatim>\<open>recursive\<close>, only the one asked for
  is recorded.
\<close>

definition ensure_dir :: "env \<Rightarrow> string \<Rightarrow> world \<Rightarrow> js_error + world" where
  "ensure_dir e dir w =
     (if dir \<in> files w then Inr w
      else case mkdir_error e dir of
             Some m \<Rightarrow> Inl (Error (''Could not create downloads directory: '' @ m))
           | None \<Rightarrow> Inr (w\<lparr>files := insert dir (files w)\<rparr>))"

definition plain_get :: "string \<Rightarrow> request" where
  "plain_get u = \<lparr>req_method = GET, req_url = u, req_authorization = None,
                  req_content_type = None, req_accept = None\<rparr>"

definition auth_get :: "string \<Rightarrow> string \<Rightarrow> request" where
  "auth_get tok u = \<lparr>req_method = GET, req_url = u,
                     req_authorization = Some (''Basic '' @ tok),
                     req_content_type = None, req_accept = None\<rparr>"

text \<open>
  How one pass through lines 97 to 250 ends. The promise that waits for the writer is
  returned without \<^verbatim>\<open>await\<close>, so its rejection is not seen by either \<^verbatim>\<open>catch\<close>
  of \<^verbatim>\<open>downloadVideo\<close> (\<open>Escaped\<close>); an error of the second request reaches the
  outer \<^verbatim>\<open>catch\<close> (\<open>Caught\<close>).
\<close>

datatype fetch_outcome = Saved | Escaped js_error | Caught js_error | Stalled

text \<open>
  Piping the response to request \<open>n\<close> into the file. The promise is settled by the
  writer alone: rejected when the writer fails (no file is left), resolved when the
  writer has finished, which it does once the response stream has ended. When the
  response stream stalls or breaks before its end nothing settles the promise
  (\<open>Stalled\<close>): the code attaches no handler to the stream, and \<^verbatim>\<open>pipe\<close> does not end
  the writer then. The statements between the request and the promise (the progress
  display, the creation of the writer) are taken not to throw.
\<close>

definition save_stream :: "env \<Rightarrow> nat \<Rightarrow> string \<Rightarrow> world \<Rightarrow> fetch_outcome \<times> world" where
  "save_stream e n filePath w =
     (case write_error e filePath of
        Some m \<Rightarrow> (Escaped (Error m), w)
      | None \<Rightarrow> if stream_ends e n then (Saved, w\<lparr>files := insert filePath (files w)\<rparr>)
                else (Stalled, w))"

definition fetch_video :: "env \<Rightarrow> downloader \<Rightarrow> string \<Rightarrow> string \<Rightarrow> world \<Rightarrow> fetch_outcome \<times> world" where
  "fetch_video e vd u filePath w =
     (case send e (plain_get u) w of
        (Resolved _, w1) \<Rightarrow> save_stream e (length (requests w)) filePath w1
      | (Rejected directError, w1) \<Rightarrow>
          (case send e (auth_get (basicToken vd) u) w1 of
             (Resolved _, w2) \<Rightarrow> save_stream e (length (requests w1)) filePath w2
           | (Rejected error, w2) \<Rightarrow> (Caught error, w2)))"

text \<open>The tests of the outer \<^verbatim>\<open>catch\<close>, lines 253 and 262 to 267.\<close>

definition is_429 :: "js_error \<Rightarrow> bool" where
  "is_429 error = (case err_response error of None \<Rightarrow> False | Some r \<Rightarrow> resp_status r = 429)"

definition retryAfter :: "js_error \<Rightarrow> int option" where
  "retryAfter error =
     parseInt10 (let h = (case err_response error of None \<Rightarrow> None | Some r \<Rightarrow> resp_retry_after r)
                 in if truthy h then the h else ''60'')"

definition is_s3_access_error :: "string \<Rightarrow> js_error \<Rightarrow> bool" where
  "is_s3_access_error u error =
     ((case err_response error of
         None \<Rightarrow> False
       | Some r \<Rightarrow> (resp_status r = 403 \<or> resp_status r = 400 \<or> resp_status r = 404)
                   \<and> str_includes u ''s3.amazonaws.com'')
      \<or> err_message error = ''socket hang up''
      \<or> err_code error = Some ''ECONNRESET''
      \<or> err_code error = Some ''ETIMEDOUT'')"

text \<open>
  The result of \<^verbatim>\<open>downloadVideo\<close>: \<open>Inr (Some path)\<close>, \<open>Inr None\<close> for \<^verbatim>\<open>null\<close>, \<open>Inl\<close> for
  a thrown error; \<open>None\<close> when the call never returns, which is the case when it is
  restarted without end and when the promise of a download is never settled. The
  variable \<^verbatim>\<open>backoffDelay\<close> of line 56 is never read and is left out.
\<close>

type_synonym download_result = "(js_error + string option) \<times> world"

partial_function (option) downloadVideo ::
  "env \<Rightarrow> downloader \<Rightarrow> string option \<Rightarrow> string option \<Rightarrow> nat \<Rightarrow> nat \<Rightarrow> rat \<Rightarrow> world
     \<Rightarrow> download_result option" where
  "downloadVideo e vd url filename retryCount maxRetries retryDelay w =
     (if \<not> truthy url then Some (Inr None, w)
      else case ensure_dir e (downloadsDir vd) w of
        Inl err \<Rightarrow> Some (Inl err, w)
      | Inr w1 \<Rightarrow>
         (let u = the url;
              filename1 = (if truthy filename then the filename else last_segment u);
              filePath = path_join (downloadsDir vd) filename1
          in if filePath \<in> files w1 then Some (Inr (Some filePath), w1)
             else case fetch_video e vd u filePath (respectRateLimit w1) of
               (Saved, w2) \<Rightarrow> Some (Inr (Some filePath), w2)
             | (Escaped err, w2) \<Rightarrow> Some (Inl err, w2)
             | (Stalled, w2) \<Rightarrow> None
             | (Caught error, w2) \<Rightarrow>
                 if is_429 error
                 then downloadVideo e vd url (Some filename1) 0 3 2000
                        (setTimeout RateLimited
                           (map_option (\<lambda>s. of_int s * 1000) (retryAfter error)) w2)
                 else if is_s3_access_error u error
                 then (if retryCount < maxRetries
                       then downloadVideo e vd url (Some filename1) (retryCount + 1) maxRetries
                              retryDelay
                              (setTimeout RetryBackoff (Some (retryDelay * 2 ^ retryCount)) w2)
                       else Some (Inr None, w2))
                 else (if retryCount < maxRetries
                       then downloadVideo e vd url (Some filename1) (retryCount + 1) maxRetries
                              retryDelay
                              (setTimeout RetryBackoff (Some (retryDelay * 2 ^ retryCount)) w2)
                       else Some (Inl error, w2))))"

subsection \<open>downloadVideosFromExtensiveCalls\<close>

text \<open>A call of the extensive API, with the fields the downloader reads.\<close>

record call_meta =
  meta_id :: "string option"
  meta_title :: "string option"
  meta_started :: "string option"

record call_media =
  videoUrl :: "string option"

record call =
  metaData :: "call_meta option"
  media :: "call_media option"

text \<open>The entries of \<^verbatim>\<open>downloadedFiles\<close> and of \<^verbatim>\<open>failedDownloads\<close>.\<close>

record downloaded =
  dl_callId :: "string option"
  dl_title :: string
  dl_filePath :: string

record failed =
  f_callId :: "string option"
  f_title :: string
  f_reason :: "string option"
  f_error :: "string option"

datatype outcome = Downloaded downloaded | Failed failed

definition call_id :: "call \<Rightarrow> string option" where
  "call_id c = (case metaData c of None \<Rightarrow> None | Some m \<Rightarrow> meta_id m)"

definition call_title :: "call \<Rightarrow> string" where
  "call_title c =
     (let t = (case metaData c of None \<Rightarrow> None | Some m \<Rightarrow> meta_title m)
      in if truthy t then the t else ''Unknown Call'')"

definition call_videoUrl :: "call \<Rightarrow> string option" where
  "call_videoUrl c = (case media c of None \<Rightarrow> None | Some m \<Rightarrow> videoUrl m)"

definition formattedDate :: "env \<Rightarrow> call \<Rightarrow> string" where
  "formattedDate e c =
     (let startedDateTime = (case metaData c of None \<Rightarrow> None | Some m \<Rightarrow> meta_started m)
      in if truthy startedDateTime
         then (case isoDate e (the startedDateTime) of Some d \<Rightarrow> d | None \<Rightarrow> [])
         else [])"

definition fileExt :: "string \<Rightarrow> string" where
  "fileExt u =
     (if str_includes (toLowerCase u) ''.mp4'' then ''.mp4''
      else if str_includes (toLowerCase u) ''.webm'' then ''.webm'' else ''.mp4'')"

definition call_filename :: "env \<Rightarrow> call \<Rightarrow> string \<Rightarrow> string" where
  "call_filename e c u =
     (if formattedDate e c \<noteq> [] then formattedDate e c @ ''_'' else [])
       @ template (call_id c) @ ''_'' @ sanitize_title (call_title c) @ fileExt u"

text \<open>
  Lines 367 to 379: the refresh callback is asked when the call has an id and a
  callback was given; its URL is used when it is truthy; its exception is swallowed.
\<close>

definition refresh_url :: "downloader \<Rightarrow> call \<Rightarrow> string \<Rightarrow> world \<Rightarrow> string \<times> world" where
  "refresh_url vd c u w =
     (if truthy (call_id c)
      then (case refreshUrlCallback vd of
              None \<Rightarrow> (u, w)
            | Some hook \<Rightarrow>
                (case hook (the (call_id c)) w of
                   (Hook_returned refreshedUrl, w1) \<Rightarrow>
                     (if truthy refreshedUrl then the refreshedUrl else u, w1)
                 | (Hook_threw refreshError, w1) \<Rightarrow> (u, w1)))
      else (u, w))"

text \<open>
  Lines 384 to 406: what the loop records for the result of \<^verbatim>\<open>downloadVideo\<close>. A
  path is a success, \<^verbatim>\<open>null\<close> a failure with a reason, and an exception is caught
  and becomes a failure with the message of the error.
\<close>

definition record_outcome :: "call \<Rightarrow> download_result option \<Rightarrow> (outcome \<times> world) option" where
  "record_outcome c res =
     (case res of
        None \<Rightarrow> None
      | Some (Inr filePath, w2) \<Rightarrow>
          if truthy filePath
          then Some (Downloaded \<lparr>dl_callId = call_id c, dl_title = call_title c,
                                  dl_filePath = the filePath\<rparr>, w2)
          else Some (Failed \<lparr>f_callId = call_id c, f_title = call_title c,
                              f_reason = Some ''Download returned null'',
                              f_error = None\<rparr>, w2)
      | Some (Inl error, w2) \<Rightarrow>
          Some (Failed \<lparr>f_callId = (if truthy (call_id c) then call_id c
                                        else Some ''unknown''),
                         f_title = call_title c, f_reason = None,
                         f_error = Some (err_message error)\<rparr>, w2))"

text \<open>The body of the loop, lines 331 to 407: one call, one entry.\<close>

definition process_call :: "env \<Rightarrow> downloader \<Rightarrow> call \<Rightarrow> world \<Rightarrow> (outcome \<times> world) option" where
  "process_call e vd c w =
     (if \<not> truthy (call_videoUrl c)
      then Some (Failed \<lparr>f_callId = call_id c, f_title = call_title c,
                         f_reason = Some ''No video URL in extensive call data'',
                         f_error = None\<rparr>, w)
      else (let u = the (call_videoUrl c);
                filename = call_filename e c u;
                (freshVideoUrl, w1) = refresh_url vd c u w
            in record_outcome c
                 (downloadVideo e vd (Some freshVideoUrl) (Some filename) 0 3 2000 w1)))"

text \<open>The loop, with the two arrays it pushes to.\<close>

fun process_calls ::
  "env \<Rightarrow> downloader \<Rightarrow> call list \<Rightarrow> downloaded list \<Rightarrow> failed list \<Rightarrow> world
     \<Rightarrow> (downloaded list \<times> failed list \<times> world) option" where
  "process_calls e vd [] downloadedFiles failedDownloads w =
     Some (downloadedFiles, failedDownloads, w)"
| "process_calls e vd (c # cs) downloadedFiles failedDownloads w =
     (case process_call e vd c w of
        None \<Rightarrow> None
      | Some (Downloaded d, w1) \<Rightarrow>
          process_calls e vd cs (downloadedFiles @ [d]) failedDownloads w1
      | Some (Failed f, w1) \<Rightarrow>
          process_calls e vd cs downloadedFiles (failedDownloads @ [f]) w1)"

definition failedPath :: "env \<Rightarrow> world \<Rightarrow> string" where
  "failedPath e w =
     path_join exports_dir (''failed_video_downloads_'' @ isoNow e (now w) @ ''.json'')"

text \<open>
  The whole method. The argument is \<open>None\<close> when it is not an array. After the loop
  the failures are written with \<^verbatim>\<open>writeFileSync\<close>, outside any \<^verbatim>\<open>try\<close>.
\<close>

definition downloadVideosFromExtensiveCalls ::
  "env \<Rightarrow> downloader \<Rightarrow> call list option \<Rightarrow> world
     \<Rightarrow> ((js_error + downloaded list) \<times> world) option" where
  "downloadVideosFromExtensiveCalls e vd extensiveCalls w =
     (case extensiveCalls of
        None \<Rightarrow> Some (Inr [], w)
      | Some calls \<Rightarrow>
          (case process_calls e vd calls [] [] w of
             None \<Rightarrow> None
           | Some (downloadedFiles, failedDownloads, w1) \<Rightarrow>
               if failedDownloads \<noteq> []
               then (case write_error e (failedPath e w1) of
                       Some m \<Rightarrow> Some (Inl (Error m), w1)
                     | None \<Rightarrow>
                         Some (Inr downloadedFiles,
                               w1\<lparr>files := insert (failedPath e w1) (files w1)\<rparr>))
               else Some (Inr downloadedFiles, w1)))"

subsection \<open>getSignedMediaUrl and the refresh callback of the export\<close>

record gong_export =
  apiUrl :: string
  gong_basicToken :: string

definition media_request ::
  "gong_export \<Rightarrow> http_method \<Rightarrow> string \<Rightarrow> string option \<Rightarrow> string \<Rightarrow> request" where
  "media_request g m contentType accept callId =
     \<lparr>req_method = m, req_url = apiUrl g @ ''/v2/calls/'' @ callId @ ''/media'',
      req_authorization = Some (''Basic '' @ gong_basicToken g),
      req_content_type = Some contentType, req_accept = accept\<rparr>"

definition put_octet :: "gong_export \<Rightarrow> string \<Rightarrow> request" where
  "put_octet g callId =
     media_request g PUT ''application/octet-stream'' (Some ''application/json'') callId"

definition put_plain :: "gong_export \<Rightarrow> string \<Rightarrow> request" where
  "put_plain g callId = media_request g PUT ''text/plain'' (Some ''application/json'') callId"

definition delete_media :: "gong_export \<Rightarrow> string \<Rightarrow> request" where
  "delete_media g callId = media_request g DELETE ''application/json'' None callId"

text \<open>Lines 279 to 295: DELETE as the last resort, then the first error is rethrown.\<close>

definition try_delete ::
  "env \<Rightarrow> gong_export \<Rightarrow> string \<Rightarrow> js_error \<Rightarrow> world \<Rightarrow> (js_error + string option) \<times> world" where
  "try_delete e g callId putError w =
     (case send e (delete_media g callId) w of
        (Resolved u, w1) \<Rightarrow> if truthy u then (Inr u, w1) else (Inl putError, w1)
      | (Rejected deleteError, w1) \<Rightarrow> (Inl putError, w1))"

definition getSignedMediaUrl ::
  "env \<Rightarrow> gong_export \<Rightarrow> string \<Rightarrow> world \<Rightarrow> (js_error + string option) \<times> world" where
  "getSignedMediaUrl e g callId w =
     (case send e (put_octet g callId) w of
        (Resolved u, w1) \<Rightarrow> if truthy u then (Inr u, w1) else (Inr None, w1)
      | (Rejected putError, w1) \<Rightarrow>
          (case send e (put_plain g callId) w1 of
             (Resolved u, w2) \<Rightarrow>
               if truthy u then (Inr u, w2) else try_delete e g callId putError w2
           | (Rejected plainError, w2) \<Rightarrow> try_delete e g callId putError w2))"

text \<open>The callback that \<^verbatim>\<open>export.js\<close> passes to the downloader (its lines 110 to 122).\<close>

definition export_refresh :: "env \<Rightarrow> gong_export \<Rightarrow> string \<Rightarrow> world \<Rightarrow> hook_result \<times> world" where
  "export_refresh e g callId w =
     (case getSignedMediaUrl e g callId w of
        (Inr refreshedUrl, w1) \<Rightarrow>
          (if truthy refreshedUrl then Hook_returned refreshedUrl else Hook_returned None, w1)
      | (Inl error, w1) \<Rightarrow> (Hook_returned None, w1))"

subsection \<open>One pass of downloadVideo\<close>

text \<open>
  The body of \<^verbatim>\<open>downloadVideo\<close> with its recursive calls made explicit: one pass
  either finishes with a result, or asks for the method to be entered again with a new
  file name, retry count, retry limit, base delay and world, or waits without end for
  the promise of the download, in the world given. \<open>downloadVideo_unfold\<close> below
  shows that this is the body of the definition above.
\<close>

datatype dv_next = Done download_result | Again "string option" nat nat rat world | Stuck world

text \<open>The world in which a pass ends.\<close>

fun pass_world :: "dv_next \<Rightarrow> world" where
  "pass_world (Done (r, w)) = w"
| "pass_world (Again filename retryCount maxRetries retryDelay w) = w"
| "pass_world (Stuck w) = w"

text \<open>
  The file name that \<^verbatim>\<open>downloadVideo\<close> uses and the path it computes for a URL and a
  file name. A name names a file in the directory when it is a single path segment
  other than \<^verbatim>\<open>.\<close> and \<^verbatim>\<open>..\<close>: then \<^verbatim>\<open>path.join\<close> yields a path below the
  directory, not the directory or one above it.
\<close>

definition file_name :: "string option \<Rightarrow> string option \<Rightarrow> string" where
  "file_name url filename = (if truthy filename then the filename else last_segment (the url))"

definition names_a_file :: "string \<Rightarrow> bool" where
  "names_a_file name =
     (name \<noteq> [] \<and> name \<noteq> ''.'' \<and> name \<noteq> ''..'' \<and> CHR ''/'' \<notin> set name)"


definition destination :: "downloader \<Rightarrow> string option \<Rightarrow> string option \<Rightarrow> string" where
  "destination vd url filename =
     path_join (downloadsDir vd) (if truthy filename then the filename else last_segment (the url))"

definition dv_step ::
  "env \<Rightarrow> downloader \<Rightarrow> string option \<Rightarrow> string option \<Rightarrow> nat \<Rightarrow> nat \<Rightarrow> rat \<Rightarrow> world \<Rightarrow> dv_next" where
  "dv_step e vd url filename retryCount maxRetries retryDelay w =
     (if \<not> truthy url then Done (Inr None, w)
      else case ensure_dir e (downloadsDir vd) w of
        Inl err \<Rightarrow> Done (Inl err, w)
      | Inr w1 \<Rightarrow>
         (let u = the url;
              filename1 = (if truthy filename then the filename else last_segment u);
              filePath = path_join (downloadsDir vd) filename1
          in if filePath \<in> files w1 then Done (Inr (Some filePath), w1)
             else case fetch_video e vd u filePath (respectRateLimit w1) of
               (Saved, w2) \<Rightarrow> Done (Inr (Some filePath), w2)
             | (Escaped err, w2) \<Rightarrow> Done (Inl err, w2)
             | (Stalled, w2) \<Rightarrow> Stuck w2
             | (Caught error, w2) \<Rightarrow>
                 if is_429 error
                 then Again (Some filename1) 0 3 2000
                        (setTimeout RateLimited
                           (map_option (\<lambda>s. of_int s * 1000) (retryAfter error)) w2)
                 else if is_s3_access_error u error
                 then (if retryCount < maxRetries
                       then Again (Some filename1) (retryCount + 1) maxRetries retryDelay
                              (setTimeout RetryBackoff (Some (retryDelay * 2 ^ retryCount)) w2)
                       else Done (Inr None, w2))
                 else (if retryCount < maxRetries
                       then Again (Some filename1) (retryCount + 1) maxRetries retryDelay
                              (setTimeout RetryBackoff (Some (retryDelay * 2 ^ retryCount)) w2)
                       else Done (Inl error, w2))))"

subsection \<open>Reading the logs\<close>

text \<open>What a run from world \<open>w\<close> to world \<open>w'\<close> appended to the two logs.\<close>

definition new_requests :: "world \<Rightarrow> world \<Rightarrow> (int \<times> request) list" where
  "new_requests w w' = drop (length (requests w)) (requests w')"

definition new_sleeps :: "world \<Rightarrow> world \<Rightarrow> (timer \<times> rat option) list" where
  "new_sleeps w w' = drop (length (sleeps w)) (sleeps w')"

text \<open>The delays of one kind of timer, in the order awaited.\<close>

definition delays :: "timer \<Rightarrow> (timer \<times> rat option) list \<Rightarrow> rat option list" where
  "delays k sl = map snd (filter (\<lambda>p. fst p = k) sl)"

text \<open>
  A download attempt starts with the request that carries no \<^verbatim>\<open>Authorization\<close> header;
  these are the clock values at which the attempts of a log start.
\<close>

definition attempt_times :: "(int \<times> request) list \<Rightarrow> int list" where
  "attempt_times rs = map fst (filter (\<lambda>p. req_authorization (snd p) = None) rs)"

text \<open>Each time is at least \<open>m\<close> after the one before it, the first after \<open>t\<close>.\<close>

fun spaced :: "rat \<Rightarrow> int \<Rightarrow> int list \<Rightarrow> bool" where
  "spaced m t [] = True"
| "spaced m t (x # xs) = (of_int t + m \<le> of_int x \<and> spaced m x xs)"

text \<open>
  The states of the rate limiter that the code reaches with a rate that divides 1000,
  as the 2 of the constructor does: the last call is not in the future and the daily
  window ends at most 24 hours from now.
\<close>

definition limiter_ok :: "world \<Rightarrow> bool" where
  "limiter_ok w =
     (0 < callsPerSecond (rateLimit w) \<and> callsPerSecond (rateLimit w) dvd 1000
      \<and> lastCallTime (rateLimit w) \<le> now w
      \<and> resetTime (rateLimit w) \<le> now w + 24 * 60 * 60 * 1000)"

text \<open>
  What one pass of the rate limiter does, from world \<open>w\<close>: the daily window is renewed
  when it has expired; when the daily ceiling is reached the pass waits until the
  window resets (a timer runs for one millisecond at least); then it waits for what is
  missing of \<open>1000 / callsPerSecond + 50\<close> milliseconds since the last call; the
  last-call time becomes the clock value at which the pass ends.
\<close>

definition rate_limit_contract :: "world \<Rightarrow> bool" where
  "rate_limit_contract w =
   (let rl = rateLimit w; w' = respectRateLimit w; rl' = rateLimit w';
        m = 1000 / of_nat (callsPerSecond rl) + 50;
        expired = (resetTime rl < now w);
        exhausted = (callsPerDay rl \<le> (if expired then 0 else currentCalls rl));
        t1 = (if exhausted then max (now w + 1) (resetTime rl') else now w)
    in resetTime rl' = (if expired then now w + 24 * 60 * 60 * 1000 else resetTime rl)
     \<and> currentCalls rl' = (if expired \<or> exhausted then 1 else currentCalls rl + 1)
     \<and> delays DailyQuota (new_sleeps w w')
          = (if exhausted then [Some (of_int (resetTime rl' - now w))] else [])
     \<and> delays Spacing (new_sleeps w w')
          = (if of_int (t1 - lastCallTime rl) < m
             then [Some (m - of_int (t1 - lastCallTime rl))] else [])
     \<and> of_int (now w') = max (of_int t1) (of_int (lastCallTime rl) + m)
     \<and> lastCallTime rl' = now w'
     \<and> of_int (lastCallTime rl) + 1000 / of_nat (callsPerSecond rl) + 50
          \<le> (of_int (lastCallTime rl') :: rat)
     \<and> limiter_ok w')"

text \<open>
  The invariant of the download attempts between two worlds: the request log grows,
  the configured rate is kept, the attempts are spaced from the last call on, the
  last-call time is the start of the last attempt, and the rate limiter is in a state
  as above.
\<close>

definition gated :: "world \<Rightarrow> world \<Rightarrow> bool" where
  "gated w w' = (\<exists>ext. requests w' = requests w @ ext
      \<and> callsPerSecond (rateLimit w') = callsPerSecond (rateLimit w)
      \<and> spaced (1000 / of_nat (callsPerSecond (rateLimit w)) + 50) (lastCallTime (rateLimit w))
            (attempt_times ext)
      \<and> lastCallTime (rateLimit w') = last (lastCallTime (rateLimit w) # attempt_times ext)
      \<and> limiter_ok w')"

subsection \<open>Reading a response\<close>

text \<open>A response whose body holds a usable \<^verbatim>\<open>url\<close>, and that field.\<close>

definition yields_url :: "response \<Rightarrow> bool" where
  "yields_url r = (case r of Resolved u \<Rightarrow> truthy u | Rejected err \<Rightarrow> False)"

definition body_url :: "response \<Rightarrow> string option" where
  "body_url r = (case r of Resolved u \<Rightarrow> u | Rejected err \<Rightarrow> None)"

subsection \<open>An attempt whose two requests are rejected\<close>

text \<open>
  The world after such an attempt, when the directory exists: the rate limiter has
  run, and the two requests are in the log.
\<close>

definition failed_attempt :: "downloader \<Rightarrow> string \<Rightarrow> world \<Rightarrow> world" where
  "failed_attempt vd u w =
     (let w1 = respectRateLimit w
      in w1\<lparr>requests := requests w1 @ [(now w1, plain_get u),
                                           (now w1, auth_get (basicToken vd) u)]\<rparr>)"

subsection \<open>The requests of a download\<close>

text \<open>
  A GET request for URL \<open>u\<close> that carries no \<^verbatim>\<open>Authorization\<close> header, and one that
  carries the Basic header with the token.
\<close>

definition unauthenticated :: "string \<Rightarrow> request \<Rightarrow> bool" where
  "unauthenticated u r = (req_method r = GET \<and> req_url r = u \<and> req_authorization r = None)"

definition authenticated :: "string \<Rightarrow> string \<Rightarrow> request \<Rightarrow> bool" where
  "authenticated tok u r =
     (req_method r = GET \<and> req_url r = u \<and> req_authorization r = Some (''Basic '' @ tok))"

definition is_resolved :: "response \<Rightarrow> bool" where
  "is_resolved r = (case r of Resolved b \<Rightarrow> True | Rejected err \<Rightarrow> False)"

text \<open>
  The requests of one pass of \<^verbatim>\<open>downloadVideo\<close> for URL \<open>u\<close>, the first of them being
  request number \<open>n\<close> of the environment: none, or the unauthenticated request alone,
  which has succeeded, or the unauthenticated request, which has failed, followed by
  the authenticated one.
\<close>

fun one_attempt :: "env \<Rightarrow> string \<Rightarrow> string \<Rightarrow> nat \<Rightarrow> request list \<Rightarrow> bool" where
  "one_attempt e tok u n [] = True"
| "one_attempt e tok u n [r1] = (unauthenticated u r1 \<and> is_resolved (net e n r1))"
| "one_attempt e tok u n [r1, r2] =
     (unauthenticated u r1 \<and> \<not> is_resolved (net e n r1) \<and> authenticated tok u r2)"
| "one_attempt e tok u n (r1 # r2 # r3 # rs) = False"

text \<open>
  The shape of the requests of a run of \<^verbatim>\<open>downloadVideo\<close>: every attempt starts with
  the unauthenticated request; the authenticated request follows exactly when that
  first request was rejected, and only once; after a request that succeeded there is
  no further request.
\<close>

fun attempts_ok :: "env \<Rightarrow> string \<Rightarrow> string \<Rightarrow> nat \<Rightarrow> request list \<Rightarrow> bool" where
  "attempts_ok e tok u n [] = True"
| "attempts_ok e tok u n [r] = (unauthenticated u r \<and> is_resolved (net e n r))"
| "attempts_ok e tok u n (r1 # r2 # rs) =
     (unauthenticated u r1 \<and> \<not> is_resolved (net e n r1) \<and> authenticated tok u r2
      \<and> (if is_resolved (net e (n + 1) r2) then rs = []
         else attempts_ok e tok u (n + 2) rs))"

subsection \<open>Calls whose files are already there\<close>

text \<open>
  The path at which the loop stores the video of a call, the entry it records for a
  call that is complete, the assumption that a refresh callback leaves the files
  alone, and the world after nothing but the refresh callbacks of a list of calls.
\<close>

definition call_path :: "env \<Rightarrow> downloader \<Rightarrow> call \<Rightarrow> string" where
  "call_path e vd c = path_join (downloadsDir vd) (call_filename e c (the (call_videoUrl c)))"

definition completed :: "env \<Rightarrow> downloader \<Rightarrow> call \<Rightarrow> downloaded" where
  "completed e vd c = \<lparr>dl_callId = call_id c, dl_title = call_title c,
                        dl_filePath = call_path e vd c\<rparr>"

definition hook_keeps_files :: "downloader \<Rightarrow> bool" where
  "hook_keeps_files vd =
     (case refreshUrlCallback vd of
        None \<Rightarrow> True
      | Some hook \<Rightarrow> \<forall>callId w. files (snd (hook callId w)) = files w)"

definition refresh_all :: "downloader \<Rightarrow> call list \<Rightarrow> world \<Rightarrow> world" where
  "refresh_all vd calls w =
     foldl (\<lambda>w c. snd (refresh_url vd c (the (call_videoUrl c)) w)) w calls"

subsection \<open>Outcomes\<close>

text \<open>
  An environment that never answers 429, and one in which the body of every answer
  arrives whole. An entry belongs to a call when it carries the
  title the loop computes for the call and its id (or "unknown", which the handler of
  exceptions puts for a missing id). The successes and the failures of a list of
  outcomes, in order.
\<close>

definition never_429 :: "env \<Rightarrow> bool" where
  "never_429 e = (\<forall>n r err. net e n r = Rejected err \<longrightarrow> \<not> is_429 err)"

definition streams_end :: "env \<Rightarrow> bool" where
  "streams_end e = (\<forall>n. stream_ends e n)"

definition entry_matches :: "call \<Rightarrow> outcome \<Rightarrow> bool" where
  "entry_matches c out =
     (case out of
        Downloaded d \<Rightarrow> dl_callId d = call_id c \<and> dl_title d = call_title c
      | Failed f \<Rightarrow> f_title f = call_title c
                   \<and> (f_callId f = call_id c \<or> f_callId f = Some ''unknown''))"

definition successes :: "outcome list \<Rightarrow> downloaded list" where
  "successes outs = concat (map (\<lambda>out. case out of Downloaded d \<Rightarrow> [d] | Failed f \<Rightarrow> []) outs)"

definition failures :: "outcome list \<Rightarrow> failed list" where
  "failures outs = concat (map (\<lambda>out. case out of Downloaded d \<Rightarrow> [] | Failed f \<Rightarrow> [f]) outs)"

subsection \<open>Concrete environments and worlds\<close>

text \<open>
  An environment with a given network, in which the body of every answer arrives
  whole, every directory can be created and every file written; the date of a
  timestamp is its first ten characters.
\<close>

definition env_of :: "(nat \<Rightarrow> request \<Rightarrow> response) \<Rightarrow> env" where
  "env_of n = \<lparr>net = n, stream_ends = (\<lambda>k. True),
               mkdir_error = (\<lambda>d. None), write_error = (\<lambda>p. None),
               isoDate = (\<lambda>s. Some (take 10 s)),
               isoNow = (\<lambda>t. ''2024-03-02T08-00-00.000Z'')\<rparr>"

definition http_error :: "nat \<Rightarrow> string option \<Rightarrow> js_error" where
  "http_error st ra = \<lparr>err_message = ''Request failed'', err_code = Some ''ERR_BAD_REQUEST'',
       err_response = Some \<lparr>resp_status = st, resp_retry_after = ra\<rparr>\<rparr>"

definition rejecting :: "js_error \<Rightarrow> env" where
  "rejecting err = env_of (\<lambda>n r. Rejected err)"

definition start_world :: "string set \<Rightarrow> int \<Rightarrow> world" where
  "start_world fs t = \<lparr>files = fs, now = t, rateLimit = initial_rateLimit t,
                       requests = [], sleeps = []\<rparr>"

definition gong0 :: gong_export where
  "gong0 = \<lparr>apiUrl = ''https://api.gong.io'', gong_basicToken = ''a2V5OnNlY3JldA==''\<rparr>"

definition vd0 :: downloader where
  "vd0 = \<lparr>apiKey = ''key'', basicToken = ''a2V5OnNlY3JldA=='', customStoragePath = None,
          refreshUrlCallback = None\<rparr>"

definition s3_url :: string where
  "s3_url = ''https://gong-media.s3.amazonaws.com/calls/a.mp4''"

definition connection_reset :: js_error where
  "connection_reset = \<lparr>err_message = ''socket hang up'', err_code = Some ''ECONNRESET'',
                        err_response = None\<rparr>"

text \<open>The first request is reset by the peer; every later one is answered without a URL.\<close>

definition first_rejected_then_empty :: env where
  "first_rejected_then_empty =
     env_of (\<lambda>n r. if n = 0 then Rejected connection_reset else Resolved None)"

text \<open>The first request is refused with status 405; every later one is answered with a URL.\<close>

definition second_has_url :: env where
  "second_has_url =
     env_of (\<lambda>n r. if n = 0 then Rejected (http_error 405 None)
                    else Resolved (Some ''https://gong-media.s3.amazonaws.com/signed/c1.mp4''))"

text \<open>A call with an embedded video URL on S3, and no refresh callback in \<open>vd0\<close>.\<close>

definition call1 :: call where
  "call1 = \<lparr>metaData = Some \<lparr>meta_id = Some ''c1'', meta_title = Some ''Weekly Sync'',
                              meta_started = Some ''2024-03-01T10:00Z''\<rparr>,
            media = Some \<lparr>videoUrl = Some s3_url\<rparr>\<rparr>"

text \<open>The failures a run of the loop has recorded (none when it does not return).\<close>

definition run_failures :: "(downloaded list \<times> failed list \<times> world) option \<Rightarrow> failed list" where
  "run_failures r = (case r of None \<Rightarrow> [] | Some (ds, fs, w) \<Rightarrow> fs)"



definition vd_refreshing :: "env \<Rightarrow> downloader" where
  "vd_refreshing e = vd0\<lparr>refreshUrlCallback := Some (export_refresh e gong0)\<rparr>"

definition no_mkdir :: env where
  "no_mkdir = (env_of (\<lambda>n r. Resolved None))
                \<lparr>mkdir_error := (\<lambda>d. Some ''EACCES: permission denied'')\<rparr>"

definition no_write :: env where
  "no_write = (env_of (\<lambda>n r. Resolved None))
                \<lparr>write_error := (\<lambda>p. Some ''ENOENT: no such file or directory'')\<rparr>"

text \<open>Every request succeeds, with a body that holds no URL.\<close>

definition answers_without_url :: env where
  "answers_without_url = env_of (\<lambda>n r. Resolved None)"

text \<open>A call that has no media.\<close>

definition call_without_video :: call where
  "call_without_video = \<lparr>metaData = Some \<lparr>meta_id = Some ''c2'', meta_title = None,
                                           meta_started = None\<rparr>,
                          media = None\<rparr>"

text \<open>
  Three worlds at clock value 1000, the videos directory being there: one in which the
  last call was made 100 ms ago, one in which the daily ceiling is reached and the
  window ends in 5 seconds, and one whose daily window ended at 500.
\<close>

definition recently_called :: world where
  "recently_called = \<lparr>files = {''exports/videos''}, now = 1000,
       rateLimit = \<lparr>callsPerSecond = 2, callsPerDay = 10000, currentCalls = 7,
                    resetTime = 80000000, lastCallTime = 900\<rparr>,
       requests = [], sleeps = []\<rparr>"

definition quota_used :: world where
  "quota_used = \<lparr>files = {''exports/videos''}, now = 1000,
       rateLimit = \<lparr>callsPerSecond = 2, callsPerDay = 10000, currentCalls = 10000,
                    resetTime = 6000, lastCallTime = 900\<rparr>,
       requests = [], sleeps = []\<rparr>"

definition window_over :: world where
  "window_over = \<lparr>files = {''exports/videos''}, now = 1000,
       rateLimit = \<lparr>callsPerSecond = 2, callsPerDay = 10000, currentCalls = 9000,
                    resetTime = 500, lastCallTime = 100\<rparr>,
       requests = [], sleeps = []\<rparr>"

text \<open>
  Every request is answered successfully, and no body arrives whole. Every request
  without \<^verbatim>\<open>Authorization\<close> header is answered 429 and every other one 403. The first
  two requests are answered 429 with a date in \<^verbatim>\<open>Retry-After\<close>, every later one
  succeeds.
\<close>

definition stream_breaks :: env where
  "stream_breaks = (env_of (\<lambda>n r. Resolved None))\<lparr>stream_ends := (\<lambda>n. False)\<rparr>"



text \<open>A downloader that stores the videos on a volume of its own.\<close>

definition vd_volume :: downloader where
  "vd_volume = vd0\<lparr>customStoragePath := Some ''/mnt/media/gong''\<rparr>"




section \<open>Properties\<close>

subsection \<open>Paths and timers\<close>

lemma path_normalize_nonempty: "path_normalize p \<noteq> []"
  by (simp add: path_normalize_def Let_def)

lemma path_join_nonempty [simp]: "path_join d n \<noteq> []"
  by (simp add: path_join_def path_normalize_nonempty)

lemma timer_ms_pos: "0 < timer_ms d"
  by (auto simp: timer_ms_def split: option.splits)

lemma timer_ms_int: "1 \<le> x \<Longrightarrow> x \<le> 2147483647 \<Longrightarrow> timer_ms (Some (of_int x)) = x"
  by (simp add: timer_ms_def)

lemma setTimeout_now: "now w < now (setTimeout k d w)"
  using timer_ms_pos [of d] by (simp add: setTimeout_def)

subsection \<open>The rate limiter\<close>

lemmas rl_defs =
  respectRateLimit_def await_spacing_def await_daily_def reset_daily_def setTimeout_def Let_def

lemma min_time_int:
  assumes "c dvd 1000"
  shows "1000 / of_nat c + 50 = (of_int (int (1000 div c) + 50) :: rat)"
proof -
  have "(of_nat (1000 div c) :: rat) = of_nat 1000 / of_nat c"
    by (rule of_nat_of_nat_div [OF assms])
  then show ?thesis by simp
qed

lemma respectRateLimit_frame:
  "files (respectRateLimit w) = files w \<and> requests (respectRateLimit w) = requests w
     \<and> callsPerSecond (rateLimit (respectRateLimit w)) = callsPerSecond (rateLimit w)
     \<and> callsPerDay (rateLimit (respectRateLimit w)) = callsPerDay (rateLimit w)
     \<and> lastCallTime (rateLimit (respectRateLimit w)) = now (respectRateLimit w)"
  by (simp add: rl_defs)

lemma delays_append [simp]: "delays k (a @ b) = delays k a @ delays k b"
  by (simp add: delays_def)

lemma delays_Cons [simp]:
  "delays k ((k', d) # sl) = (if k' = k then d # delays k sl else delays k sl)"
  by (simp add: delays_def)

lemma delays_Nil [simp]: "delays k [] = []"
  by (simp add: delays_def)

lemma new_requests_append: "requests w' = requests w @ rq \<Longrightarrow> new_requests w w' = rq"
  by (simp add: new_requests_def)

lemma new_sleeps_append: "sleeps w' = sleeps w @ sl \<Longrightarrow> new_sleeps w w' = sl"
  by (simp add: new_sleeps_def)

text \<open>The daily window: lines 560 to 572.\<close>

lemma daily_frame:
  "files (await_daily (reset_daily w)) = files w"
  "requests (await_daily (reset_daily w)) = requests w"
  "callsPerSecond (rateLimit (await_daily (reset_daily w))) = callsPerSecond (rateLimit w)"
  "callsPerDay (rateLimit (await_daily (reset_daily w))) = callsPerDay (rateLimit w)"
  "lastCallTime (rateLimit (await_daily (reset_daily w))) = lastCallTime (rateLimit w)"
  by (simp_all add: rl_defs)

lemma daily_reset:
  "resetTime (rateLimit (await_daily (reset_daily w)))
     = (if resetTime (rateLimit w) < now w then now w + 24 * 60 * 60 * 1000
        else resetTime (rateLimit w))"
  by (simp add: rl_defs)

lemma daily_calls:
  "currentCalls (rateLimit (await_daily (reset_daily w)))
     = (if resetTime (rateLimit w) < now w
           \<or> callsPerDay (rateLimit w) \<le> currentCalls (rateLimit w) then 0
        else currentCalls (rateLimit w))"
  by (simp add: rl_defs)

lemma daily_sleeps:
  "sleeps (await_daily (reset_daily w)) = sleeps w @
     (if callsPerDay (rateLimit w)
           \<le> (if resetTime (rateLimit w) < now w then 0 else currentCalls (rateLimit w))
      then [(DailyQuota,
             Some (of_int (resetTime (rateLimit (await_daily (reset_daily w))) - now w)))]
      else [])"
  by (simp add: rl_defs)

lemma daily_now:
  assumes "resetTime (rateLimit w) \<le> now w + 24 * 60 * 60 * 1000"
  shows "now (await_daily (reset_daily w))
     = (if callsPerDay (rateLimit w)
             \<le> (if resetTime (rateLimit w) < now w then 0 else currentCalls (rateLimit w))
        then max (now w + 1) (resetTime (rateLimit (await_daily (reset_daily w))))
        else now w)"
  using assms by (simp add: rl_defs timer_ms_def)

lemma daily_mono: "now w \<le> now (await_daily (reset_daily w))"
  using timer_ms_pos by (simp add: rl_defs less_imp_le)

text \<open>The spacing: lines 574 to 585.\<close>

lemma spacing_frame:
  "files (await_spacing w) = files w" "requests (await_spacing w) = requests w"
  "rateLimit (await_spacing w) = rateLimit w"
  by (simp_all add: rl_defs)

lemma spacing_sleeps:
  "sleeps (await_spacing w) = sleeps w @
     (if (of_int (now w - lastCallTime (rateLimit w)) :: rat)
           < 1000 / of_nat (callsPerSecond (rateLimit w)) + 50
      then [(Spacing, Some (1000 / of_nat (callsPerSecond (rateLimit w)) + 50
                             - of_int (now w - lastCallTime (rateLimit w))))] else [])"
  by (simp add: rl_defs minTimeBetweenCalls_def)

lemma spacing_now:
  assumes "callsPerSecond (rateLimit w) dvd 1000" "lastCallTime (rateLimit w) \<le> now w"
  shows "of_int (now (await_spacing w))
     = max (of_int (now w) :: rat)
           (of_int (lastCallTime (rateLimit w))
              + (1000 / of_nat (callsPerSecond (rateLimit w)) + 50))"
proof -
  let ?M = "int (1000 div callsPerSecond (rateLimit w)) + 50"
  let ?ts = "now w - lastCallTime (rateLimit w)"
  have m: "1000 / of_nat (callsPerSecond (rateLimit w)) + 50 = (of_int ?M :: rat)"
    by (rule min_time_int [OF assms(1)])
  have M: "?M \<le> 1050"
  proof -
    have "1000 div callsPerSecond (rateLimit w) \<le> 1000" by (rule div_le_dividend)
    then show ?thesis by simp
  qed
  show ?thesis
  proof (cases "?ts < ?M")
    case True
    then have wait: "1 \<le> ?M - ?ts" "?M - ?ts \<le> 2147483647" using assms(2) M by linarith+
    have "await_spacing w = setTimeout Spacing (Some (of_int ?M - of_int ?ts)) w"
      using True unfolding await_spacing_def minTimeBetweenCalls_def Let_def m
      by (simp del: of_int_diff of_int_add)
    also have "(of_int ?M - of_int ?ts :: rat) = of_int (?M - ?ts)" by simp
    finally have "await_spacing w = setTimeout Spacing (Some (of_int (?M - ?ts))) w" .
    then have "now (await_spacing w) = now w + (?M - ?ts)"
      using timer_ms_int [OF wait] by (simp add: setTimeout_def)
    then show ?thesis unfolding m using True by simp
  next
    case False
    then have "await_spacing w = w"
      unfolding await_spacing_def minTimeBetweenCalls_def Let_def m
      by (simp del: of_int_diff of_int_add)
    then show ?thesis unfolding m using False by simp
  qed
qed

text \<open>The whole of \<^verbatim>\<open>respectRateLimit\<close>.\<close>

lemma respectRateLimit_parts:
  "now (respectRateLimit w) = now (await_spacing (await_daily (reset_daily w)))"
  "sleeps (respectRateLimit w) = sleeps (await_spacing (await_daily (reset_daily w)))"
  "resetTime (rateLimit (respectRateLimit w))
     = resetTime (rateLimit (await_daily (reset_daily w)))"
  "currentCalls (rateLimit (respectRateLimit w))
     = currentCalls (rateLimit (await_daily (reset_daily w))) + 1"
  "lastCallTime (rateLimit (respectRateLimit w))
     = now (await_spacing (await_daily (reset_daily w)))"
  by (simp_all add: respectRateLimit_def Let_def spacing_frame)

lemma respectRateLimit_contract:
  assumes ok: "limiter_ok w"
  shows "rate_limit_contract w"
proof -
  let ?rl = "rateLimit w" and ?d = "await_daily (reset_daily w)"
  let ?m = "1000 / of_nat (callsPerSecond ?rl) + 50 :: rat"
  let ?expired = "resetTime ?rl < now w"
  let ?exhausted = "callsPerDay ?rl \<le> (if ?expired then 0 else currentCalls ?rl)"
  let ?t1 = "if ?exhausted then max (now w + 1) (resetTime (rateLimit ?d)) else now w"
  from ok have dvd: "callsPerSecond ?rl dvd 1000" and last: "lastCallTime ?rl \<le> now w"
    and reset: "resetTime ?rl \<le> now w + 24 * 60 * 60 * 1000" and pos: "0 < callsPerSecond ?rl"
    by (simp_all add: limiter_ok_def)
  have t1: "now ?d = ?t1" by (rule daily_now [OF reset])
  have dlast: "lastCallTime (rateLimit ?d) \<le> now ?d"
    using last daily_mono [of w] by (simp add: daily_frame)
  have dvd': "callsPerSecond (rateLimit ?d) dvd 1000" using dvd by (simp add: daily_frame)
  have nw: "of_int (now (respectRateLimit w)) = max (of_int ?t1) (of_int (lastCallTime ?rl) + ?m)"
    using spacing_now [OF dvd' dlast] unfolding respectRateLimit_parts t1 by (simp add: daily_frame)
  have sl: "sleeps (respectRateLimit w) = sleeps w @
     (if ?exhausted then [(DailyQuota, Some (of_int (resetTime (rateLimit ?d) - now w)))] else [])
     @ (if (of_int (?t1 - lastCallTime ?rl) :: rat) < ?m
        then [(Spacing, Some (?m - of_int (?t1 - lastCallTime ?rl)))] else [])"
    unfolding respectRateLimit_parts spacing_sleeps daily_sleeps t1 by (simp add: daily_frame)
  have 1: "resetTime (rateLimit (respectRateLimit w))
             = (if ?expired then now w + 24 * 60 * 60 * 1000 else resetTime ?rl)"
    unfolding respectRateLimit_parts by (rule daily_reset)
  have 2: "currentCalls (rateLimit (respectRateLimit w))
             = (if ?expired \<or> ?exhausted then 1 else currentCalls ?rl + 1)"
    unfolding respectRateLimit_parts daily_calls by auto
  have 3: "delays DailyQuota (new_sleeps w (respectRateLimit w))
          = (if ?exhausted
             then [Some (of_int (resetTime (rateLimit (respectRateLimit w)) - now w))] else [])"
    unfolding new_sleeps_append [OF sl] respectRateLimit_parts by simp
  have 4: "delays Spacing (new_sleeps w (respectRateLimit w))
          = (if (of_int (?t1 - lastCallTime ?rl) :: rat) < ?m
             then [Some (?m - of_int (?t1 - lastCallTime ?rl))] else [])"
    unfolding new_sleeps_append [OF sl] by simp
  have 5: "lastCallTime (rateLimit (respectRateLimit w)) = now (respectRateLimit w)"
    using respectRateLimit_frame [of w] by simp
  have 6: "of_int (lastCallTime ?rl) + 1000 / of_nat (callsPerSecond ?rl) + 50
          \<le> (of_int (lastCallTime (rateLimit (respectRateLimit w))) :: rat)"
    unfolding 5 nw by simp
  have mono: "now w \<le> now (respectRateLimit w)"
    using daily_mono [of w] dlast spacing_now [OF dvd' dlast] unfolding respectRateLimit_parts
    by (simp add: max_def split: if_splits)
  have 7: "limiter_ok (respectRateLimit w)"
    unfolding limiter_ok_def 5 1 using pos dvd reset mono respectRateLimit_frame [of w] by auto
  show ?thesis
    unfolding rate_limit_contract_def Let_def
    using 1 2 3 4 nw 5 6 7 unfolding respectRateLimit_parts by simp
qed

lemma respectRateLimit_gap:
  "limiter_ok w \<Longrightarrow>
     of_int (lastCallTime (rateLimit w)) + (1000 / of_nat (callsPerSecond (rateLimit w)) + 50)
       \<le> (of_int (now (respectRateLimit w)) :: rat)"
  using respectRateLimit_contract [of w] respectRateLimit_frame [of w]
  by (simp add: rate_limit_contract_def Let_def)

lemma respectRateLimit_ok: "limiter_ok w \<Longrightarrow> limiter_ok (respectRateLimit w)"
  using respectRateLimit_contract [of w] by (simp add: rate_limit_contract_def Let_def)

lemma setTimeout_ok: "limiter_ok w \<Longrightarrow> limiter_ok (setTimeout k d w)"
  using timer_ms_pos [of d] by (simp add: limiter_ok_def setTimeout_def)

subsection \<open>Unfolding and induction for downloadVideo\<close>

lemma downloadVideo_unfold:
  "downloadVideo e vd url filename retryCount maxRetries retryDelay w =
     (case dv_step e vd url filename retryCount maxRetries retryDelay w of
        Done r \<Rightarrow> Some r
      | Again filename1 retryCount1 maxRetries1 retryDelay1 w1 \<Rightarrow>
          downloadVideo e vd url filename1 retryCount1 maxRetries1 retryDelay1 w1
      | Stuck w1 \<Rightarrow> None)"
  by (subst downloadVideo.simps)
     (simp add: dv_step_def Let_def split: sum.split prod.split fetch_outcome.split)

lemma downloadVideo_induct [consumes 1, case_names Done Again]:
  assumes ret: "downloadVideo e vd url filename retryCount maxRetries retryDelay w = Some y"
    and base: "\<And>filename retryCount maxRetries retryDelay w y.
       dv_step e vd url filename retryCount maxRetries retryDelay w = Done y
       \<Longrightarrow> P filename retryCount maxRetries retryDelay w y"
    and again: "\<And>filename retryCount maxRetries retryDelay w filename1 retryCount1 maxRetries1 retryDelay1 w1 y.
       dv_step e vd url filename retryCount maxRetries retryDelay w
         = Again filename1 retryCount1 maxRetries1 retryDelay1 w1
       \<Longrightarrow> downloadVideo e vd url filename1 retryCount1 maxRetries1 retryDelay1 w1 = Some y
       \<Longrightarrow> P filename1 retryCount1 maxRetries1 retryDelay1 w1 y
       \<Longrightarrow> P filename retryCount maxRetries retryDelay w y"
  shows "P filename retryCount maxRetries retryDelay w y"
proof -
  define Q where "Q = (\<lambda>e' vd' url' fn rc mr rd w y.
     e' = e \<and> vd' = vd \<and> url' = url
       \<longrightarrow> downloadVideo e vd url fn rc mr rd w = Some y \<and> P fn rc mr rd w y)"
  have "Q e vd url filename retryCount maxRetries retryDelay w y"
  proof (rule downloadVideo.raw_induct [where P = Q, OF _ ret])
    fix dv e' vd' url' fn rc mr rd w y
    assume IH: "\<And>a b c fn rc mr rd w y. dv a b c fn rc mr rd w = Some y \<Longrightarrow> Q a b c fn rc mr rd w y"
      and hyp: "(if \<not> truthy url' then Some (Inr None, w)
      else case ensure_dir e' (downloadsDir vd') w of
        Inl err \<Rightarrow> Some (Inl err, w)
      | Inr w1 \<Rightarrow>
         (let u = the url';
              filename1 = (if truthy fn then the fn else last_segment u);
              filePath = path_join (downloadsDir vd') filename1
          in if filePath \<in> files w1 then Some (Inr (Some filePath), w1)
             else case fetch_video e' vd' u filePath (respectRateLimit w1) of
               (Saved, w2) \<Rightarrow> Some (Inr (Some filePath), w2)
             | (Escaped err, w2) \<Rightarrow> Some (Inl err, w2)
             | (Stalled, w2) \<Rightarrow> None
             | (Caught error, w2) \<Rightarrow>
                 if is_429 error
                 then dv e' vd' url' (Some filename1) 0 3 2000
                        (setTimeout RateLimited
                           (map_option (\<lambda>s. of_int s * 1000) (retryAfter error)) w2)
                 else if is_s3_access_error u error
                 then (if rc < mr
                       then dv e' vd' url' (Some filename1) (rc + 1) mr rd
                              (setTimeout RetryBackoff (Some (rd * 2 ^ rc)) w2)
                       else Some (Inr None, w2))
                 else (if rc < mr
                       then dv e' vd' url' (Some filename1) (rc + 1) mr rd
                              (setTimeout RetryBackoff (Some (rd * 2 ^ rc)) w2)
                       else Some (Inl error, w2)))) = Some y"
    show "Q e' vd' url' fn rc mr rd w y"
      unfolding Q_def
    proof (intro impI, elim conjE)
      assume eq: "e' = e" "vd' = vd" "url' = url"
      have body: "(case dv_step e vd url fn rc mr rd w of
                     Done r \<Rightarrow> Some r
                   | Again f1 r1 m1 d1 w1 \<Rightarrow> dv e vd url f1 r1 m1 d1 w1
                   | Stuck w1 \<Rightarrow> None) = Some y"
        using hyp unfolding eq
        by (auto simp add: dv_step_def Let_def
                 split: sum.splits prod.splits fetch_outcome.splits if_splits)
      show "downloadVideo e vd url fn rc mr rd w = Some y \<and> P fn rc mr rd w y"
      proof (cases "dv_step e vd url fn rc mr rd w")
        case (Done r)
        with body have "r = y" by simp
        with Done base show ?thesis
          by (simp add: downloadVideo_unfold [of e vd url fn])
      next
        case (Again f1 r1 m1 d1 w1)
        with body have "dv e vd url f1 r1 m1 d1 w1 = Some y" by simp
        from IH [OF this] have "downloadVideo e vd url f1 r1 m1 d1 w1 = Some y"
          and "P f1 r1 m1 d1 w1 y" by (simp_all add: Q_def)
        with Again again show ?thesis
          by (simp add: downloadVideo_unfold [of e vd url fn])
      next
        case (Stuck w1)
        with body show ?thesis by simp
      qed
    qed
  qed
  then show ?thesis by (simp add: Q_def)
qed

subsection \<open>The worlds of one attempt\<close>

lemma truthy_Some [simp]: "truthy (Some u) = (u \<noteq> [])"
  by (simp add: truthy_def)

lemma truthy_None [simp]: "\<not> truthy None"
  by (simp add: truthy_def)

lemma ensure_dir_world:
  "ensure_dir e d w = Inr w1 \<Longrightarrow>
     now w1 = now w \<and> rateLimit w1 = rateLimit w \<and> requests w1 = requests w
     \<and> sleeps w1 = sleeps w \<and> files w1 = insert d (files w)"
  by (auto simp: ensure_dir_def split: if_splits option.splits)

lemma ensure_dir_exists: "d \<in> files w \<Longrightarrow> ensure_dir e d w = Inr w"
  by (simp add: ensure_dir_def)

lemma save_stream_world:
  "save_stream e n p w = (out, w1) \<Longrightarrow>
     now w1 = now w \<and> rateLimit w1 = rateLimit w \<and> requests w1 = requests w
     \<and> sleeps w1 = sleeps w \<and> (\<forall>err. out \<noteq> Caught err)"
  by (auto simp: save_stream_def split: option.splits if_splits)

lemma fetch_video_world:
  "fetch_video e vd u p w = (out, w1) \<Longrightarrow>
     now w1 = now w \<and> rateLimit w1 = rateLimit w \<and> sleeps w1 = sleeps w
     \<and> (requests w1 = requests w @ [(now w, plain_get u)]
        \<or> requests w1 = requests w @ [(now w, plain_get u), (now w, auth_get (basicToken vd) u)])"
  by (auto simp: fetch_video_def send_def split: response.splits prod.splits dest!: save_stream_world)

lemma attempt_times_fetch [simp]:
  "attempt_times [(t, plain_get u)] = [t]"
  "attempt_times [(t, plain_get u), (t', auth_get tok u)] = [t]"
  by (simp_all add: attempt_times_def plain_get_def auth_get_def)

lemma attempt_times_append [simp]: "attempt_times (xs @ ys) = attempt_times xs @ attempt_times ys"
  by (simp add: attempt_times_def)

lemma spaced_append:
  "spaced m t (xs @ ys) = (spaced m t xs \<and> spaced m (last (t # xs)) ys)"
  by (induction xs arbitrary: t) auto

text \<open>
  The shape of one pass: it ends in the world it started in, or in the world after the
  directory was looked at, or after one attempt, or after one attempt and one timer.
\<close>

lemma dv_step_cases [case_names same stored fetched stuck again]:
  obtains (same) r where "dv_step e vd url fn rc mr rd w = Done (r, w)"
  | (stored) w1 r where "ensure_dir e (downloadsDir vd) w = Inr w1"
      "dv_step e vd url fn rc mr rd w = Done (r, w1)"
  | (fetched) w1 out w2 r where "ensure_dir e (downloadsDir vd) w = Inr w1"
      "fetch_video e vd (the url) (destination vd url fn) (respectRateLimit w1) = (out, w2)"
      "dv_step e vd url fn rc mr rd w = Done (r, w2)"
  | (stuck) w1 w2 where "ensure_dir e (downloadsDir vd) w = Inr w1"
      "fetch_video e vd (the url) (destination vd url fn) (respectRateLimit w1) = (Stalled, w2)"
      "dv_step e vd url fn rc mr rd w = Stuck w2"
  | (again) w1 err w2 f1 rc1 mr1 rd1 k d where "ensure_dir e (downloadsDir vd) w = Inr w1"
      "fetch_video e vd (the url) (destination vd url fn) (respectRateLimit w1) = (Caught err, w2)"
      "dv_step e vd url fn rc mr rd w = Again f1 rc1 mr1 rd1 (setTimeout k d w2)"
proof (cases "truthy url")
  case False
  then have "dv_step e vd url fn rc mr rd w = Done (Inr None, w)" by (simp add: dv_step_def)
  then show ?thesis by (rule same)
next
  case True
  show ?thesis
  proof (cases "ensure_dir e (downloadsDir vd) w")
    case (Inl err)
    with True have "dv_step e vd url fn rc mr rd w = Done (Inl err, w)" by (simp add: dv_step_def)
    then show ?thesis by (rule same)
  next
    case (Inr w1)
    show ?thesis
    proof (cases "destination vd url fn \<in> files w1")
      case ex: True
      with True Inr have "dv_step e vd url fn rc mr rd w = Done (Inr (Some (destination vd url fn)), w1)"
        by (simp add: dv_step_def destination_def)
      with Inr show ?thesis by (rule stored)
    next
      case nex: False
      obtain out w2 where f: "fetch_video e vd (the url) (destination vd url fn)
          (respectRateLimit w1) = (out, w2)"
        by (cases "fetch_video e vd (the url) (destination vd url fn) (respectRateLimit w1)")
      show ?thesis
      proof (cases out)
        case Saved
        with True Inr nex f have "dv_step e vd url fn rc mr rd w
            = Done (Inr (Some (destination vd url fn)), w2)"
          by (simp add: dv_step_def destination_def Let_def)
        with Inr f show ?thesis by (rule fetched)
      next
        case (Escaped err)
        with True Inr nex f have "dv_step e vd url fn rc mr rd w = Done (Inl err, w2)"
          by (simp add: dv_step_def destination_def Let_def)
        with Inr f show ?thesis by (rule fetched)
      next
        case Stalled
        with True Inr nex f have "dv_step e vd url fn rc mr rd w = Stuck w2"
          by (simp add: dv_step_def destination_def Let_def)
        with Inr f [unfolded Stalled] show ?thesis by (rule stuck)
      next
        case (Caught err)
        note f' = f [unfolded Caught]
        have "(\<exists>r. dv_step e vd url fn rc mr rd w = Done (r, w2))
            \<or> (\<exists>f1 rc1 mr1 rd1 k d. dv_step e vd url fn rc mr rd w
                   = Again f1 rc1 mr1 rd1 (setTimeout k d w2))"
          using True Inr nex f' by (auto simp add: dv_step_def destination_def Let_def)
        then show ?thesis
        proof (elim disjE exE)
          fix r assume "dv_step e vd url fn rc mr rd w = Done (r, w2)"
          with Inr f show ?thesis by (rule fetched)
        next
          fix f1 rc1 mr1 rd1 k d
          assume "dv_step e vd url fn rc mr rd w = Again f1 rc1 mr1 rd1 (setTimeout k d w2)"
          with Inr f' show ?thesis by (rule again)
        qed
      qed
    qed
  qed
qed

subsection \<open>The spacing of the attempts\<close>

lemma gatedI:
  "requests w' = requests w @ ext \<Longrightarrow>
   callsPerSecond (rateLimit w') = callsPerSecond (rateLimit w) \<Longrightarrow>
   spaced (1000 / of_nat (callsPerSecond (rateLimit w)) + 50) (lastCallTime (rateLimit w))
     (attempt_times ext) \<Longrightarrow>
   lastCallTime (rateLimit w') = last (lastCallTime (rateLimit w) # attempt_times ext) \<Longrightarrow>
   limiter_ok w' \<Longrightarrow>
   gated w w'"
  unfolding gated_def by blast

lemma gated_refl: "limiter_ok w \<Longrightarrow> gated w w"
  by (rule gatedI [where ext = "[]"]) (simp_all add: attempt_times_def)

lemma unchanged_ok:
  "now w1 = now w \<Longrightarrow> rateLimit w1 = rateLimit w \<Longrightarrow> limiter_ok w \<Longrightarrow> limiter_ok w1"
  by (simp add: limiter_ok_def)

lemma gated_attempt:
  assumes ok: "limiter_ok w"
    and "ensure_dir e d w = Inr w1" "fetch_video e vd u p (respectRateLimit w1) = (out, w2)"
  shows "gated w w2"
proof -
  from ensure_dir_world [OF assms(2)] have w1: "now w1 = now w" "rateLimit w1 = rateLimit w"
    "requests w1 = requests w" by simp_all
  have ok1: "limiter_ok w1" by (rule unchanged_ok [OF w1(1,2) ok])
  let ?r = "respectRateLimit w1"
  from fetch_video_world [OF assms(3)]
  have w2: "rateLimit w2 = rateLimit ?r" "now w2 = now ?r"
    and rq: "requests w2 = requests ?r @ [(now ?r, plain_get u)]
        \<or> requests w2 = requests ?r @ [(now ?r, plain_get u), (now ?r, auth_get (basicToken vd) u)]"
    by simp_all
  have ok2: "limiter_ok w2"
    by (rule unchanged_ok [OF w2(2,1) respectRateLimit_ok [OF ok1]])
  have fr: "requests ?r = requests w" "callsPerSecond (rateLimit ?r) = callsPerSecond (rateLimit w)"
    "lastCallTime (rateLimit ?r) = now ?r"
    using respectRateLimit_frame [of w1] w1 by simp_all
  have gap: "of_int (lastCallTime (rateLimit w))
               + (1000 / of_nat (callsPerSecond (rateLimit w)) + 50) \<le> (of_int (now ?r) :: rat)"
    using respectRateLimit_gap [OF ok1] w1 by simp
  from rq show ?thesis
  proof
    assume "requests w2 = requests ?r @ [(now ?r, plain_get u)]"
    then show ?thesis using w2 fr gap ok2
      by (intro gatedI [where ext = "[(now ?r, plain_get u)]"]) simp_all
  next
    assume "requests w2 = requests ?r @ [(now ?r, plain_get u), (now ?r, auth_get (basicToken vd) u)]"
    then show ?thesis using w2 fr gap ok2
      by (intro gatedI [where ext = "[(now ?r, plain_get u), (now ?r, auth_get (basicToken vd) u)]"]) simp_all
  qed
qed

lemma gated_trans:
  assumes "gated w w1" "gated w1 w2"
  shows "gated w w2"
proof -
  let ?m = "\<lambda>w. 1000 / of_nat (callsPerSecond (rateLimit w)) + 50 :: rat"
  from assms(1) obtain ext1 where 1: "requests w1 = requests w @ ext1"
      "callsPerSecond (rateLimit w1) = callsPerSecond (rateLimit w)"
      "spaced (?m w) (lastCallTime (rateLimit w)) (attempt_times ext1)"
      "lastCallTime (rateLimit w1) = last (lastCallTime (rateLimit w) # attempt_times ext1)"
    unfolding gated_def by blast
  from assms(2) obtain ext2 where 2: "requests w2 = requests w1 @ ext2"
      "callsPerSecond (rateLimit w2) = callsPerSecond (rateLimit w1)"
      "spaced (?m w1) (lastCallTime (rateLimit w1)) (attempt_times ext2)"
      "lastCallTime (rateLimit w2) = last (lastCallTime (rateLimit w1) # attempt_times ext2)"
      "limiter_ok w2"
    unfolding gated_def by blast
  have m: "?m w1 = ?m w" using 1(2) by simp
  show ?thesis
  proof (rule gatedI [where ext = "ext1 @ ext2"])
    show "requests w2 = requests w @ ext1 @ ext2" using 1(1) 2(1) by simp
    show "callsPerSecond (rateLimit w2) = callsPerSecond (rateLimit w)" using 1(2) 2(2) by simp
    show "spaced (?m w) (lastCallTime (rateLimit w)) (attempt_times (ext1 @ ext2))"
      using 1(3) 2(3) unfolding m 1(4) attempt_times_append spaced_append by simp
    show "lastCallTime (rateLimit w2)
            = last (lastCallTime (rateLimit w) # attempt_times (ext1 @ ext2))"
      unfolding 2(4) 1(4) attempt_times_append
      by (cases "attempt_times ext2 = []") simp_all
    show "limiter_ok w2" by (rule 2(5))
  qed
qed

lemma gated_ok: "gated w w' \<Longrightarrow> limiter_ok w'"
  by (auto simp: gated_def)

lemma gated_sleep: "gated w w1 \<Longrightarrow> gated w (setTimeout k d w1)"
  unfolding gated_def using setTimeout_ok [of w1 k d]
  by (auto simp add: setTimeout_def)

lemma gated_dir: "limiter_ok w \<Longrightarrow> ensure_dir e d w = Inr w1 \<Longrightarrow> gated w w1"
  using ensure_dir_world [of e d w w1]
  by (intro gatedI [where ext = "[]"]) (simp_all add: attempt_times_def limiter_ok_def)

lemma dv_step_gated:
  assumes "limiter_ok w"
  shows "gated w (pass_world (dv_step e vd url fn rc mr rd w))"
proof (cases rule: dv_step_cases [of e vd url fn rc mr rd w])
  case (same r)
  then show ?thesis using gated_refl [OF assms] by simp
next
  case (stored w1 r)
  then show ?thesis using gated_dir [OF assms stored(1)] by simp
next
  case (fetched w1 out w2 r)
  then show ?thesis using gated_attempt [OF assms fetched(1,2)] by simp
next
  case (stuck w1 w2)
  then show ?thesis using gated_attempt [OF assms stuck(1,2)] by simp
next
  case (again w1 err w2 f1 rc1 mr1 rd1 k d)
  then show ?thesis using gated_sleep [OF gated_attempt [OF assms again(1,2)]] by simp
qed

lemma downloadVideo_gated:
  assumes "downloadVideo e vd url fn rc mr rd w = Some (r, w')" and "limiter_ok w"
  shows "gated w w'"
proof -
  have "limiter_ok w \<longrightarrow> gated w (snd y)" if "downloadVideo e vd url fn rc mr rd w = Some y" for y
    using that
  proof (induction rule: downloadVideo_induct)
    case (Done fn rc mr rd w y)
    show ?case
    proof
      assume "limiter_ok w"
      from dv_step_gated [OF this, of e vd url fn rc mr rd] Done show "gated w (snd y)"
        by (cases y) simp
    qed
  next
    case (Again fn rc mr rd w f1 rc1 mr1 rd1 w1 y)
    show ?case
    proof
      assume "limiter_ok w"
      from dv_step_gated [OF this, of e vd url fn rc mr rd] Again(1) have g: "gated w w1" by simp
      with Again(3) gated_ok [OF g] show "gated w (snd y)" by (blast intro: gated_trans)
    qed
  qed
  with assms show ?thesis by fastforce
qed

subsection \<open>Rejected attempts, retries and restarts\<close>

lemma destination_again [simp]:
  "destination vd url (Some (if truthy fn then the fn else last_segment (the url)))
     = destination vd url fn"
  by (cases fn) (auto simp add: destination_def truthy_def)

lemma destination_same:
  "destination vd (Some u) (Some (if truthy fn then the fn else last_segment u))
     = destination vd (Some u) fn"
  by (cases fn) (auto simp add: destination_def truthy_def)

lemma fetch_video_rejected:
  "net e (length (requests w)) (plain_get u) = Rejected e1 \<Longrightarrow>
   net e (Suc (length (requests w))) (auth_get (basicToken vd) u) = Rejected e2 \<Longrightarrow>
   fetch_video e vd u p w
     = (Caught e2, w\<lparr>requests := requests w @ [(now w, plain_get u),
                                                  (now w, auth_get (basicToken vd) u)]\<rparr>)"
  by (simp add: fetch_video_def send_def)

lemma dv_step_rejected:
  assumes "u \<noteq> []" "downloadsDir vd \<in> files w" "destination vd (Some u) fn \<notin> files w"
    and "net e (length (requests w)) (plain_get u) = Rejected e1"
    and "net e (Suc (length (requests w))) (auth_get (basicToken vd) u) = Rejected e2"
  shows "dv_step e vd (Some u) fn rc mr rd w =
     (let filename1 = (if truthy fn then the fn else last_segment u);
          w2 = failed_attempt vd u w
      in if is_429 e2
         then Again (Some filename1) 0 3 2000
                (setTimeout RateLimited (map_option (\<lambda>s. of_int s * 1000) (retryAfter e2)) w2)
         else if is_s3_access_error u e2
         then (if rc < mr
               then Again (Some filename1) (rc + 1) mr rd
                      (setTimeout RetryBackoff (Some (rd * 2 ^ rc)) w2)
               else Done (Inr None, w2))
         else (if rc < mr
               then Again (Some filename1) (rc + 1) mr rd
                      (setTimeout RetryBackoff (Some (rd * 2 ^ rc)) w2)
               else Done (Inl e2, w2)))"
proof -
  have rq: "requests (respectRateLimit w) = requests w"
    using respectRateLimit_frame [of w] by simp
  have f: "fetch_video e vd u (destination vd (Some u) fn) (respectRateLimit w)
             = (Caught e2, failed_attempt vd u w)"
    using fetch_video_rejected [of e "respectRateLimit w" u e1 vd e2] assms(4,5)
    by (simp add: rq failed_attempt_def Let_def)
  show ?thesis
    using assms(1,3) f unfolding destination_def
    by (cases "truthy fn") (simp_all add: dv_step_def ensure_dir_exists [OF assms(2)] Let_def)
qed

lemma failed_attempt_world:
  "files (failed_attempt vd u w) = files w"
  "requests (failed_attempt vd u w)
     = requests w @ [(now (failed_attempt vd u w), plain_get u),
                     (now (failed_attempt vd u w), auth_get (basicToken vd) u)]"
  "rateLimit (failed_attempt vd u w) = rateLimit (respectRateLimit w)"
  "now (failed_attempt vd u w) = now (respectRateLimit w)"
  "sleeps (failed_attempt vd u w) = sleeps (respectRateLimit w)"
  using respectRateLimit_frame [of w]
  by (simp_all add: failed_attempt_def Let_def)




lemma files_after [simp]: "files (setTimeout k d (failed_attempt vd u w)) = files w"
  by (simp add: setTimeout_def failed_attempt_world)

lemma not_stored_after:
  "destination vd (Some u) fn \<notin> files w \<Longrightarrow>
   destination vd (Some u) (Some (if truthy fn then the fn else last_segment u))
     \<notin> files (setTimeout k d (failed_attempt vd u w))"
  unfolding destination_same by simp

text \<open>429 forever: the call never returns.\<close>

lemma downloadVideo_429_forever:
  assumes all: "\<forall>n r. \<exists>err. net e n r = Rejected err \<and> is_429 err"
    and u: "u \<noteq> []"
    and st: "downloadsDir vd \<in> files w" and nf: "destination vd (Some u) fn \<notin> files w"
  shows "downloadVideo e vd (Some u) fn rc mr rd w = None"
proof (rule ccontr)
  assume "downloadVideo e vd (Some u) fn rc mr rd w \<noteq> None"
  then obtain y where "downloadVideo e vd (Some u) fn rc mr rd w = Some y" by blast
  then have "\<not> (downloadsDir vd \<in> files w \<and> destination vd (Some u) fn \<notin> files w)"
  proof (induction rule: downloadVideo_induct)
    case (Done fn rc mr rd w y)
    show ?case
    proof
      assume a: "downloadsDir vd \<in> files w \<and> destination vd (Some u) fn \<notin> files w"
      from all obtain e1 where 1: "net e (length (requests w)) (plain_get u) = Rejected e1"
        by blast
      from all obtain e2 where 2: "net e (Suc (length (requests w))) (auth_get (basicToken vd) u)
          = Rejected e2" "is_429 e2" by blast
      from dv_step_rejected [OF u _ _ 1 2(1), of fn rc mr rd] a 2(2) Done
      show False by (simp add: Let_def)
    qed
  next
    case (Again fn rc mr rd w f1 rc1 mr1 rd1 w1 y)
    show ?case
    proof
      assume a: "downloadsDir vd \<in> files w \<and> destination vd (Some u) fn \<notin> files w"
      from all obtain e1 where 1: "net e (length (requests w)) (plain_get u) = Rejected e1"
        by blast
      from all obtain e2 where 2: "net e (Suc (length (requests w))) (auth_get (basicToken vd) u)
          = Rejected e2" "is_429 e2" by blast
      from dv_step_rejected [OF u _ _ 1 2(1), of fn rc mr rd] a 2(2) Again(1)
      have "f1 = Some (if truthy fn then the fn else last_segment u)"
        and "w1 = setTimeout RateLimited (map_option (\<lambda>s. of_int s * 1000) (retryAfter e2))
                    (failed_attempt vd u w)"
        by (simp_all add: Let_def)
      with a have "downloadsDir vd \<in> files w1 \<and> destination vd (Some u) f1 \<notin> files w1"
        using not_stored_after [of vd u fn w] by simp
      with Again(3) show False by blast
    qed
  qed
  with st nf show False by blast
qed


subsection \<open>Evaluating the model\<close>

lemma default_videos_dir_value: "default_videos_dir = ''exports/videos''"
  unfolding default_videos_dir_def exports_dir_def by code_simp

lemma path_c1: "path_join ''exports/videos'' ''c1.mp4'' = ''exports/videos/c1.mp4''"
  by code_simp

lemma path_call1:
  "path_join ''exports/videos'' ''2024-03-01_c1_weekly_sync.mp4''
     = ''exports/videos/2024-03-01_c1_weekly_sync.mp4''"
  by code_simp

lemmas model_defs =
  truthy_def ensure_dir_def downloadsDir_def default_videos_dir_value path_c1 path_call1
  fetch_video_def send_def save_stream_def plain_get_def auth_get_def
  is_429_def is_s3_access_error_def retryAfter_def rl_defs minTimeBetweenCalls_def timer_ms_def
  env_of_def rejecting_def http_error_def start_world_def vd0_def initial_rateLimit_def
  last_segment_def

lemma s3_url_is_s3: "str_includes s3_url ''s3.amazonaws.com''"
  by (simp add: s3_url_def)

lemma s3_url_nonempty: "s3_url \<noteq> []"
  by (simp add: s3_url_def)

subsection \<open>Logs, attempts and the loop\<close>




lemma sanitize_weekly_sync: "sanitize_title ''Weekly Sync'' = ''weekly_sync''"
  by code_simp

lemma fileExt_s3_url: "fileExt s3_url = ''.mp4''"
  by code_simp

lemma call1_filename:
  "call_filename (env_of n) call1 s3_url = ''2024-03-01_c1_weekly_sync.mp4''"
  by (simp add: call_filename_def formattedDate_def call1_def env_of_def call_id_def
        call_title_def template_def fileExt_s3_url sanitize_weekly_sync)

lemmas call_defs =
  process_call_def record_outcome_def refresh_url_def call_videoUrl_def call_id_def
  call_title_def call1_def run_failures_def

subsection \<open>The requests of one attempt\<close>

lemma unauthenticated_plain_get [simp]: "unauthenticated u (plain_get u)"
  by (simp add: unauthenticated_def plain_get_def)

lemma authenticated_auth_get [simp]: "authenticated tok u (auth_get tok u)"
  by (simp add: authenticated_def auth_get_def)

lemma fetch_video_requests:
  "fetch_video e vd u p w = (out, w1) \<Longrightarrow>
     (is_resolved (net e (length (requests w)) (plain_get u))
        \<and> requests w1 = requests w @ [(now w, plain_get u)] \<and> (\<forall>err. out \<noteq> Caught err))
   \<or> (\<not> is_resolved (net e (length (requests w)) (plain_get u))
        \<and> requests w1 = requests w @ [(now w, plain_get u), (now w, auth_get (basicToken vd) u)]
        \<and> (is_resolved (net e (Suc (length (requests w))) (auth_get (basicToken vd) u))
             \<longleftrightarrow> (\<forall>err. out \<noteq> Caught err)))"
  by (auto simp: fetch_video_def send_def is_resolved_def
        split: response.splits prod.splits dest!: save_stream_world)

lemma attempt_ok:
  assumes "ensure_dir e d w = Inr w1" "fetch_video e vd u p (respectRateLimit w1) = (out, w2)"
  shows "\<exists>ext. requests w2 = requests w @ ext
           \<and> attempts_ok e (basicToken vd) u (length (requests w)) (map snd ext)
           \<and> one_attempt e (basicToken vd) u (length (requests w)) (map snd ext)
           \<and> map snd ext = (if is_resolved (net e (length (requests w)) (plain_get u))
                             then [plain_get u] else [plain_get u, auth_get (basicToken vd) u])
           \<and> ((\<exists>err. out = Caught err)
                \<longrightarrow> \<not> is_resolved (net e (length (requests w)) (plain_get u))
                    \<and> \<not> is_resolved (net e (Suc (length (requests w)))
                                        (auth_get (basicToken vd) u))
                    \<and> map snd ext = [plain_get u, auth_get (basicToken vd) u])"
proof -
  let ?r = "respectRateLimit w1"
  have rq: "requests ?r = requests w"
    using ensure_dir_world [OF assms(1)] respectRateLimit_frame [of w1] by simp
  from fetch_video_requests [OF assms(2)] show ?thesis
  proof
    assume a: "is_resolved (net e (length (requests ?r)) (plain_get u))
        \<and> requests w2 = requests ?r @ [(now ?r, plain_get u)] \<and> (\<forall>err. out \<noteq> Caught err)"
    show ?thesis
      by (rule exI [where x = "[(now ?r, plain_get u)]"]) (use a rq in simp)
  next
    assume a: "\<not> is_resolved (net e (length (requests ?r)) (plain_get u))
        \<and> requests w2 = requests ?r @ [(now ?r, plain_get u), (now ?r, auth_get (basicToken vd) u)]
        \<and> (is_resolved (net e (Suc (length (requests ?r))) (auth_get (basicToken vd) u))
             \<longleftrightarrow> (\<forall>err. out \<noteq> Caught err))"
    show ?thesis
      by (rule exI [where x = "[(now ?r, plain_get u), (now ?r, auth_get (basicToken vd) u)]"])
         (use a rq in auto)
  qed
qed

lemma attempt_caught:
  assumes "ensure_dir e d w = Inr w1"
      "fetch_video e vd u p (respectRateLimit w1) = (Caught err, w2)"
  shows "\<exists>ext. requests w2 = requests w @ ext
    \<and> \<not> is_resolved (net e (length (requests w)) (plain_get u))
    \<and> \<not> is_resolved (net e (Suc (length (requests w))) (auth_get (basicToken vd) u))
    \<and> map snd ext = [plain_get u, auth_get (basicToken vd) u]"
  using attempt_ok [OF assms(1,2)] by auto

lemma attempt_requests:
  assumes "ensure_dir e d w = Inr w1" "fetch_video e vd u p (respectRateLimit w1) = (out, w2)"
  shows "one_attempt e (basicToken vd) u (length (requests w)) (map snd (new_requests w w2))
     \<and> map snd (new_requests w w2)
         = (if is_resolved (net e (length (requests w)) (plain_get u))
            then [plain_get u] else [plain_get u, auth_get (basicToken vd) u])"
proof -
  from attempt_ok [OF assms] obtain ext where
    "requests w2 = requests w @ ext"
    "one_attempt e (basicToken vd) u (length (requests w)) (map snd ext)"
    "map snd ext = (if is_resolved (net e (length (requests w)) (plain_get u))
                             then [plain_get u] else [plain_get u, auth_get (basicToken vd) u])"
    by (elim exE conjE)
  then show ?thesis using new_requests_append [of w2 w ext] by simp
qed

text \<open>The requests of one pass.\<close>

lemma dv_step_one_attempt:
  "one_attempt e (basicToken vd) (the url) (length (requests w))
     (map snd (new_requests w (pass_world (dv_step e vd url fn rc mr rd w))))"
proof (cases rule: dv_step_cases [of e vd url fn rc mr rd w])
  case (same r)
  then show ?thesis by (simp add: new_requests_def)
next
  case (stored w1 r)
  with ensure_dir_world [OF stored(1)] show ?thesis by (simp add: new_requests_def)
next
  case (fetched w1 out w2 r)
  with attempt_requests [OF fetched(1,2)] show ?thesis by simp
next
  case (stuck w1 w2)
  with attempt_requests [OF stuck(1,2)] show ?thesis by simp
next
  case (again w1 err w2 f1 rc1 mr1 rd1 k d)
  have "new_requests w (setTimeout k d w2) = new_requests w w2"
    by (simp add: new_requests_def setTimeout_def)
  with again attempt_requests [OF again(1,2)] show ?thesis by simp
qed

lemma dv_step_network:
  assumes "truthy url" "downloadsDir vd \<in> files w" "destination vd url fn \<notin> files w"
  shows "map snd (new_requests w (pass_world (dv_step e vd url fn rc mr rd w)))
     = (if is_resolved (net e (length (requests w)) (plain_get (the url)))
        then [plain_get (the url)]
        else [plain_get (the url), auth_get (basicToken vd) (the url)])"
proof -
  have dir: "ensure_dir e (downloadsDir vd) w = Inr w" by (rule ensure_dir_exists [OF assms(2)])
  obtain out w2 where f: "fetch_video e vd (the url) (destination vd url fn)
      (respectRateLimit w) = (out, w2)"
    by (cases "fetch_video e vd (the url) (destination vd url fn) (respectRateLimit w)")
  have "new_requests w (pass_world (dv_step e vd url fn rc mr rd w)) = new_requests w w2"
    using assms(1,3) dir f
    by (cases out)
       (simp_all add: dv_step_def destination_def Let_def new_requests_def setTimeout_def)
  with attempt_requests [OF dir f] show ?thesis by simp
qed

lemma dv_step_requests_Done:
  assumes "dv_step e vd url fn rc mr rd w = Done (r, w')"
  shows "\<exists>ext. requests w' = requests w @ ext
           \<and> attempts_ok e (basicToken vd) (the url) (length (requests w)) (map snd ext)"
proof (cases rule: dv_step_cases [of e vd url fn rc mr rd w])
  case (same r0)
  from trans [OF assms [symmetric] same] have "w' = w" by simp
  then show ?thesis by (intro exI [where x = "[]"]) simp
next
  case (stored w1 r0)
  from trans [OF assms [symmetric] stored(2)] have "w' = w1" by simp
  with ensure_dir_world [OF stored(1)] show ?thesis by (intro exI [where x = "[]"]) simp
next
  case (fetched w1 out w2 r0)
  from trans [OF assms [symmetric] fetched(3)] have "w' = w2" by simp
  with attempt_ok [OF fetched(1,2)] show ?thesis by auto
next
  case (stuck w1 w2)
  from trans [OF assms [symmetric] stuck(3)] have False by simp
  then show ?thesis ..
next
  case (again w1 err w2 f1 rc1 mr1 rd1 k d)
  from trans [OF assms [symmetric] again(3)] have False by simp
  then show ?thesis ..
qed

lemma dv_step_requests_Again:
  assumes "dv_step e vd url fn rc mr rd w = Again f1 rc1 mr1 rd1 w'"
  shows "\<exists>ext. requests w' = requests w @ ext
           \<and> \<not> is_resolved (net e (length (requests w)) (plain_get (the url)))
           \<and> \<not> is_resolved (net e (Suc (length (requests w)))
                                        (auth_get (basicToken vd) (the url)))
           \<and> map snd ext = [plain_get (the url), auth_get (basicToken vd) (the url)]"
proof (cases rule: dv_step_cases [of e vd url fn rc mr rd w])
  case (same r0)
  from trans [OF assms [symmetric] same] have False by simp
  then show ?thesis ..
next
  case (stored w1 r0)
  from trans [OF assms [symmetric] stored(2)] have False by simp
  then show ?thesis ..
next
  case (fetched w1 out w2 r0)
  from trans [OF assms [symmetric] fetched(3)] have False by simp
  then show ?thesis ..
next
  case (stuck w1 w2)
  from trans [OF assms [symmetric] stuck(3)] have False by simp
  then show ?thesis ..
next
  case (again w1 err w2 f2 rc2 mr2 rd2 k d)
  from attempt_caught [OF again(1,2)] obtain ext where ext:
    "requests w2 = requests w @ ext"
    "\<not> is_resolved (net e (length (requests w)) (plain_get (the url)))"
    "\<not> is_resolved (net e (Suc (length (requests w))) (auth_get (basicToken vd) (the url)))"
    "map snd ext = [plain_get (the url), auth_get (basicToken vd) (the url)]"
    by (elim exE conjE)
  from trans [OF assms [symmetric] again(3)] have "w' = setTimeout k d w2" by simp
  then have "requests w' = requests w2" by (simp add: setTimeout_def)
  with ext show ?thesis by (intro exI [where x = ext]) simp
qed

lemma attempts_ok_again:
  "\<not> is_resolved (net e n (plain_get u)) \<Longrightarrow> \<not> is_resolved (net e (Suc n) (auth_get tok u)) \<Longrightarrow>
   attempts_ok e tok u (Suc (Suc n)) rs \<Longrightarrow>
   attempts_ok e tok u n (plain_get u # auth_get tok u # rs)"
  by simp

lemma downloadVideo_attempts:
  assumes "downloadVideo e vd url filename retryCount maxRetries retryDelay w = Some y"
  shows "\<exists>ext. requests (snd y) = requests w @ ext
           \<and> attempts_ok e (basicToken vd) (the url) (length (requests w)) (map snd ext)"
  using assms
proof (induction rule: downloadVideo_induct)
  case (Done fn rc mr rd w y)
  obtain r w' where y: "y = (r, w')" by (cases y)
  from Done have "dv_step e vd url fn rc mr rd w = Done (r, w')" unfolding y .
  from dv_step_requests_Done [OF this] show ?case unfolding y snd_conv .
next
  case (Again fn rc mr rd w f1 rc1 mr1 rd1 w1 y)
  from dv_step_requests_Again [OF Again(1)] obtain ext1 where
    1: "requests w1 = requests w @ ext1"
      "\<not> is_resolved (net e (length (requests w)) (plain_get (the url)))"
      "\<not> is_resolved (net e (Suc (length (requests w))) (auth_get (basicToken vd) (the url)))"
      "map snd ext1 = [plain_get (the url), auth_get (basicToken vd) (the url)]"
    by (elim exE conjE)
  from Again(3) obtain ext2 where
    2: "requests (snd y) = requests w1 @ ext2"
      "attempts_ok e (basicToken vd) (the url) (length (requests w1)) (map snd ext2)"
    by (elim exE conjE)
  from 1(4) have "length (map snd ext1) = 2" by simp
  then have len: "length ext1 = 2" by simp
  have l2: "length (requests w1) = Suc (Suc (length (requests w)))"
    unfolding 1(1) using len by simp
  have ok: "attempts_ok e (basicToken vd) (the url) (length (requests w))
          (map snd (ext1 @ ext2))"
    unfolding map_append 1(4) append_Cons append_Nil
    by (rule attempts_ok_again [OF 1(2,3)]) (use 2(2) in \<open>simp only: l2\<close>)
  have rq: "requests (snd y) = requests w @ ext1 @ ext2"
    unfolding 2(1) 1(1) by simp
  from rq ok show ?case by (intro exI [where x = "ext1 @ ext2"] conjI)
qed

subsection \<open>The URL of a download\<close>


lemma record_outcome_Some:
  "record_outcome c res = Some (out, w2) \<Longrightarrow> \<exists>r. res = Some (r, w2)"
  by (auto simp: record_outcome_def split: option.splits sum.splits prod.splits if_splits)

lemma refresh_url_truthy:
  "u \<noteq> [] \<Longrightarrow> refresh_url vd c u w = (u', w1) \<Longrightarrow> u' \<noteq> []"
  by (auto simp: refresh_url_def truthy_def
        split: if_splits option.splits prod.splits hook_result.splits)

subsection \<open>Files and the loop\<close>

lemma respectRateLimit_files [simp]: "files (respectRateLimit w) = files w"
  using respectRateLimit_frame [of w] by simp

lemma fetch_video_files:
  "fetch_video e vd u p w = (out, w1) \<Longrightarrow>
     files w \<subseteq> files w1 \<and> (out = Saved \<longrightarrow> p \<in> files w1)"
  by (auto simp: fetch_video_def send_def save_stream_def
        split: response.splits prod.splits option.splits if_splits)

lemma downloadVideo_stored:
  assumes "u \<noteq> []" "downloadsDir vd \<in> files w" "destination vd (Some u) fn \<in> files w"
  shows "downloadVideo e vd (Some u) fn rc mr rd w = Some (Inr (Some (destination vd (Some u) fn)), w)"
  using assms unfolding destination_def
  by (subst downloadVideo.simps, cases "truthy fn") (simp_all add: ensure_dir_def Let_def)

lemma dv_step_Done_files:
  assumes "dv_step e vd url fn rc mr rd w = Done (res, w')"
  shows "files w \<subseteq> files w'
     \<and> (\<forall>p. res = Inr (Some p)
            \<longrightarrow> p = destination vd url fn \<and> p \<in> files w' \<and> downloadsDir vd \<in> files w')"
proof (cases "truthy url")
  case False
  with assms show ?thesis by (auto simp add: dv_step_def)
next
  case True
  show ?thesis
  proof (cases "ensure_dir e (downloadsDir vd) w")
    case (Inl err)
    with True assms show ?thesis by (auto simp add: dv_step_def)
  next
    case (Inr w1)
    from ensure_dir_world [OF Inr] have f1: "files w1 = insert (downloadsDir vd) (files w)" by simp
    show ?thesis
    proof (cases "destination vd url fn \<in> files w1")
      case ex: True
      with True Inr assms have "res = Inr (Some (destination vd url fn))" "w' = w1"
        by (simp_all add: dv_step_def destination_def Let_def)
      with ex f1 show ?thesis by auto
    next
      case nex: False
      obtain out w2 where f: "fetch_video e vd (the url) (destination vd url fn)
          (respectRateLimit w1) = (out, w2)"
        by (cases "fetch_video e vd (the url) (destination vd url fn) (respectRateLimit w1)")
      from fetch_video_files [OF f] have f2: "files w1 \<subseteq> files w2"
        "out = Saved \<longrightarrow> destination vd url fn \<in> files w2" by simp_all
      have "w' = w2 \<and> (\<forall>p. res = Inr (Some p) \<longrightarrow> out = Saved \<and> p = destination vd url fn)"
        using True Inr nex f assms
        by (cases out) (auto simp add: dv_step_def destination_def Let_def split: if_splits)
      with f1 f2 show ?thesis by auto
    qed
  qed
qed

lemma dv_step_Again_files:
  assumes "dv_step e vd url fn rc mr rd w = Again f1 rc1 mr1 rd1 w'"
  shows "files w \<subseteq> files w' \<and> destination vd url f1 = destination vd url fn"
proof (cases "truthy url")
  case False
  with assms show ?thesis by (simp add: dv_step_def)
next
  case True
  show ?thesis
  proof (cases "ensure_dir e (downloadsDir vd) w")
    case (Inl err)
    with True assms show ?thesis by (simp add: dv_step_def)
  next
    case (Inr w1)
    from ensure_dir_world [OF Inr] have f1: "files w1 = insert (downloadsDir vd) (files w)" by simp
    show ?thesis
    proof (cases "destination vd url fn \<in> files w1")
      case ex: True
      with True Inr assms show ?thesis
        by (simp_all add: dv_step_def destination_def Let_def)
    next
      case nex: False
      obtain out w2 where f: "fetch_video e vd (the url) (destination vd url fn)
          (respectRateLimit w1) = (out, w2)"
        by (cases "fetch_video e vd (the url) (destination vd url fn) (respectRateLimit w1)")
      from fetch_video_files [OF f] have f2: "files w1 \<subseteq> files w2" by simp
      have "files w' = files w2
          \<and> f1 = Some (if truthy fn then the fn else last_segment (the url))"
        using True Inr nex f assms
        by (cases out)
           (auto simp add: dv_step_def destination_def Let_def setTimeout_def split: if_splits)
      with f1 f2 destination_again [of vd url fn] show ?thesis by auto
    qed
  qed
qed

lemma downloadVideo_files:
  assumes "downloadVideo e vd url fn rc mr rd w = Some y"
  shows "files w \<subseteq> files (snd y)
     \<and> (\<forall>p. fst y = Inr (Some p)
            \<longrightarrow> p = destination vd url fn \<and> p \<in> files (snd y) \<and> downloadsDir vd \<in> files (snd y))"
  using assms
proof (induction rule: downloadVideo_induct)
  case (Done fn rc mr rd w y)
  obtain r w' where y: "y = (r, w')" by (cases y)
  from Done have "dv_step e vd url fn rc mr rd w = Done (r, w')" unfolding y .
  from dv_step_Done_files [OF this] show ?case unfolding y fst_conv snd_conv .
next
  case (Again fn rc mr rd w f1 rc1 mr1 rd1 w1 y)
  from dv_step_Again_files [OF Again(1)] have
    "files w \<subseteq> files w1" "destination vd url f1 = destination vd url fn" by simp_all
  with Again(3) show ?case by auto
qed

lemma refresh_url_files:
  assumes "hook_keeps_files vd"
  shows "files (snd (refresh_url vd c u w)) = files w"
proof (cases "refreshUrlCallback vd")
  case None
  then show ?thesis by (simp add: refresh_url_def)
next
  case (Some hook)
  with assms have keep: "files (snd (hook (the (call_id c)) w)) = files w"
    by (simp add: hook_keeps_files_def)
  obtain res w1 where h: "hook (the (call_id c)) w = (res, w1)"
    by (cases "hook (the (call_id c)) w")
  with keep have "files w1 = files w" by simp
  with Some h show ?thesis by (cases res) (simp_all add: refresh_url_def)
qed

lemma refresh_url_nonempty: "u \<noteq> [] \<Longrightarrow> fst (refresh_url vd c u w) \<noteq> []"
  using refresh_url_truthy [of u vd c w "fst (refresh_url vd c u w)" "snd (refresh_url vd c u w)"]
  by simp

lemma process_call_unfold:
  "truthy (call_videoUrl c) \<Longrightarrow>
   process_call e vd c w
     = record_outcome c
         (downloadVideo e vd (Some (fst (refresh_url vd c (the (call_videoUrl c)) w)))
            (Some (call_filename e c (the (call_videoUrl c)))) 0 3 2000
            (snd (refresh_url vd c (the (call_videoUrl c)) w)))"
  by (simp add: process_call_def Let_def split: prod.split)

lemma call_filename_nonempty: "call_filename e c v \<noteq> []"
  by (simp add: call_filename_def)

lemma destination_call_path:
  "destination vd (Some u) (Some (call_filename e c (the (call_videoUrl c)))) = call_path e vd c"
  by (simp add: destination_def call_path_def call_filename_nonempty)

text \<open>A call whose file is there is recorded as a success, and only the callback acts.\<close>

lemma process_call_stored:
  assumes "hook_keeps_files vd" "truthy (call_videoUrl c)" "downloadsDir vd \<in> files w"
    "call_path e vd c \<in> files w"
  shows "process_call e vd c w
           = Some (Downloaded (completed e vd c), snd (refresh_url vd c (the (call_videoUrl c)) w))"
proof -
  let ?v = "the (call_videoUrl c)"
  let ?u = "fst (refresh_url vd c ?v w)" and ?w1 = "snd (refresh_url vd c ?v w)"
  from assms(2) have v: "?v \<noteq> []" by (cases "call_videoUrl c") simp_all
  have u: "?u \<noteq> []" by (rule refresh_url_nonempty [OF v])
  have fs: "files ?w1 = files w" by (rule refresh_url_files [OF assms(1)])
  have "downloadVideo e vd (Some ?u) (Some (call_filename e c ?v)) 0 3 2000 ?w1
          = Some (Inr (Some (call_path e vd c)), ?w1)"
    using downloadVideo_stored [OF u, of vd ?w1 "Some (call_filename e c ?v)" e 0 3 2000]
      assms(3,4) unfolding destination_call_path fs by simp
  then show ?thesis
    unfolding process_call_unfold [OF assms(2)]
    by (simp add: record_outcome_def completed_def call_path_def)
qed

lemma process_calls_stored:
  assumes "hook_keeps_files vd"
  shows "downloadsDir vd \<in> files w \<Longrightarrow>
     \<forall>c\<in>set calls. truthy (call_videoUrl c) \<and> call_path e vd c \<in> files w \<Longrightarrow>
     process_calls e vd calls ds fs w
       = Some (ds @ map (completed e vd) calls, fs, refresh_all vd calls w)"
proof (induction calls arbitrary: ds w)
  case Nil
  show ?case by (simp add: refresh_all_def)
next
  case (Cons c cs)
  let ?w1 = "snd (refresh_url vd c (the (call_videoUrl c)) w)"
  have fs: "files ?w1 = files w" by (rule refresh_url_files [OF assms])
  from Cons.prems have c: "truthy (call_videoUrl c)" "call_path e vd c \<in> files w" by simp_all
  have step: "process_call e vd c w = Some (Downloaded (completed e vd c), ?w1)"
    by (rule process_call_stored [OF assms c(1) Cons.prems(1) c(2)])
  have "process_calls e vd cs (ds @ [completed e vd c]) fs ?w1
          = Some ((ds @ [completed e vd c]) @ map (completed e vd) cs, fs, refresh_all vd cs ?w1)"
    using Cons.prems by (intro Cons.IH) (simp_all add: fs)
  then show ?case by (simp add: step refresh_all_def)
qed

text \<open>What a call leaves behind when it is recorded as a success.\<close>

lemma process_call_files:
  assumes "hook_keeps_files vd" "process_call e vd c w = Some (out, w')"
  shows "files w \<subseteq> files w'
     \<and> (\<forall>d. out = Downloaded d
            \<longrightarrow> d = completed e vd c \<and> truthy (call_videoUrl c)
                \<and> call_path e vd c \<in> files w' \<and> downloadsDir vd \<in> files w')"
proof (cases "truthy (call_videoUrl c)")
  case False
  with assms(2) show ?thesis by (auto simp add: process_call_def)
next
  case True
  let ?v = "the (call_videoUrl c)"
  let ?u = "fst (refresh_url vd c ?v w)" and ?w1 = "snd (refresh_url vd c ?v w)"
  have fs: "files ?w1 = files w" by (rule refresh_url_files [OF assms(1)])
  from assms(2) have ro: "record_outcome c
       (downloadVideo e vd (Some ?u) (Some (call_filename e c ?v)) 0 3 2000 ?w1) = Some (out, w')"
    unfolding process_call_unfold [OF True] .
  from record_outcome_Some [OF ro] obtain r where
    dv: "downloadVideo e vd (Some ?u) (Some (call_filename e c ?v)) 0 3 2000 ?w1 = Some (r, w')"
    by (elim exE)
  from downloadVideo_files [OF dv] have
    sub: "files ?w1 \<subseteq> files w'"
    and pth: "\<forall>p. r = Inr (Some p) \<longrightarrow> p = call_path e vd c \<and> p \<in> files w'
                \<and> downloadsDir vd \<in> files w'"
    unfolding fst_conv snd_conv destination_call_path by simp_all
  have "\<forall>d. out = Downloaded d \<longrightarrow> (\<exists>p. r = Inr (Some p) \<and> d = \<lparr>dl_callId = call_id c,
             dl_title = call_title c, dl_filePath = p\<rparr>)"
    using ro unfolding dv
    by (cases r) (auto simp add: record_outcome_def truthy_def split: option.splits if_splits)
  with sub pth True show ?thesis unfolding fs by (auto simp add: completed_def)
qed

lemma process_calls_files:
  assumes "hook_keeps_files vd"
  shows "process_calls e vd calls ds fs w = Some (ds', fs', w') \<Longrightarrow>
     files w \<subseteq> files w' \<and> (\<exists>fs2. fs' = fs @ fs2)
     \<and> (fs' = fs \<longrightarrow> ds' = ds @ map (completed e vd) calls
           \<and> (\<forall>c\<in>set calls. truthy (call_videoUrl c) \<and> call_path e vd c \<in> files w')
           \<and> (calls \<noteq> [] \<longrightarrow> downloadsDir vd \<in> files w'))"
proof (induction calls arbitrary: ds fs w)
  case Nil
  then show ?case by simp
next
  case (Cons c cs)
  from Cons.prems obtain out w1 where step: "process_call e vd c w = Some (out, w1)"
    by (cases "process_call e vd c w") auto
  from process_call_files [OF assms step] have
    sub: "files w \<subseteq> files w1"
    and dl: "\<forall>d. out = Downloaded d \<longrightarrow> d = completed e vd c \<and> truthy (call_videoUrl c)
                \<and> call_path e vd c \<in> files w1 \<and> downloadsDir vd \<in> files w1"
    by simp_all
  show ?case
  proof (cases out)
    case (Downloaded d)
    with Cons.prems step have rest: "process_calls e vd cs (ds @ [d]) fs w1 = Some (ds', fs', w')"
      by simp
    from Cons.IH [OF rest] dl Downloaded sub show ?thesis by auto
  next
    case (Failed f)
    with Cons.prems step have rest: "process_calls e vd cs ds (fs @ [f]) w1 = Some (ds', fs', w')"
      by simp
    from Cons.IH [OF rest] sub show ?thesis by auto
  qed
qed

lemma getSignedMediaUrl_files: "files (snd (getSignedMediaUrl e g callId w)) = files w"
  by (simp add: getSignedMediaUrl_def try_delete_def send_def split: response.split)

lemma export_refresh_files: "files (snd (export_refresh e g callId w)) = files w"
proof -
  obtain r w1 where g: "getSignedMediaUrl e g callId w = (r, w1)"
    by (cases "getSignedMediaUrl e g callId w")
  with getSignedMediaUrl_files [of e g callId w] have "files w1 = files w" by simp
  with g show ?thesis by (cases r) (simp_all add: export_refresh_def)
qed

lemma export_refresh_keeps_files: "hook_keeps_files (vd_refreshing e)"
  by (simp add: hook_keeps_files_def vd_refreshing_def export_refresh_files)

lemma refresh_all_None: "refreshUrlCallback vd = None \<Longrightarrow> refresh_all vd calls w = w"
  by (induction calls arbitrary: w) (simp_all add: refresh_all_def refresh_url_def)

subsection \<open>Termination and the outcomes of the loop\<close>

lemma partition_length: "length (successes outs) + length (failures outs) = length outs"
  by (induction outs) (auto simp: successes_def failures_def split: outcome.splits)

lemma fetch_video_Caught:
  "fetch_video e vd u p w = (Caught err, w1) \<Longrightarrow> \<exists>n r. net e n r = Rejected err"
  by (auto simp: fetch_video_def send_def save_stream_def
        split: response.splits prod.splits option.splits if_splits)

lemma fetch_video_Stalled:
  "fetch_video e vd u p w = (Stalled, w1) \<Longrightarrow> \<not> streams_end e"
  by (auto simp: fetch_video_def send_def save_stream_def streams_end_def
        split: response.splits prod.splits option.splits if_splits)

lemma dv_step_not_Stuck:
  assumes "streams_end e"
  shows "dv_step e vd url fn rc mr rd w \<noteq> Stuck w1"
proof (cases rule: dv_step_cases [of e vd url fn rc mr rd w])
  case (stuck w0 w2)
  with fetch_video_Stalled [OF stuck(2)] assms show ?thesis by simp
qed simp_all

lemma dv_step_Again_retry:
  assumes "never_429 e" "dv_step e vd url fn rc mr rd w = Again f1 rc1 mr1 rd1 w1"
  shows "rc < mr \<and> rc1 = rc + 1 \<and> mr1 = mr \<and> rd1 = rd"
proof (cases "truthy url")
  case False
  with assms(2) show ?thesis by (simp add: dv_step_def)
next
  case True
  show ?thesis
  proof (cases "ensure_dir e (downloadsDir vd) w")
    case (Inl err)
    with True assms(2) show ?thesis by (simp add: dv_step_def)
  next
    case (Inr w0)
    show ?thesis
    proof (cases "destination vd url fn \<in> files w0")
      case ex: True
      with True Inr assms(2) show ?thesis
        by (simp add: dv_step_def destination_def Let_def)
    next
      case nex: False
      obtain out w2 where f: "fetch_video e vd (the url) (destination vd url fn)
          (respectRateLimit w0) = (out, w2)"
        by (cases "fetch_video e vd (the url) (destination vd url fn) (respectRateLimit w0)")
      show ?thesis
      proof (cases out)
        case Saved
        with True Inr nex f assms(2) show ?thesis
          by (simp add: dv_step_def destination_def Let_def)
      next
        case (Escaped err)
        with True Inr nex f assms(2) show ?thesis
          by (simp add: dv_step_def destination_def Let_def)
      next
        case Stalled
        with True Inr nex f assms(2) show ?thesis
          by (simp add: dv_step_def destination_def Let_def)
      next
        case (Caught err)
        with fetch_video_Caught [of e vd "the url" "destination vd url fn" "respectRateLimit w0" err w2]
          f assms(1) have "\<not> is_429 err" by (auto simp: never_429_def)
        with Caught True Inr nex f assms(2) show ?thesis
          by (simp add: dv_step_def destination_def Let_def split: if_splits)
      qed
    qed
  qed
qed

lemma downloadVideo_returns:
  assumes "never_429 e" "streams_end e"
  shows "\<exists>y. downloadVideo e vd url fn rc mr rd w = Some y"
proof (induction "mr - rc" arbitrary: fn rc w)
  case 0
  show ?case
  proof (cases "dv_step e vd url fn rc mr rd w")
    case (Done y)
    then show ?thesis by (simp add: downloadVideo_unfold [of e vd url fn])
  next
    case (Again f1 rc1 mr1 rd1 w1)
    from dv_step_Again_retry [OF assms(1) Again] 0 show ?thesis by simp
  next
    case (Stuck w1)
    with dv_step_not_Stuck [OF assms(2)] show ?thesis by blast
  qed
next
  case (Suc k)
  show ?case
  proof (cases "dv_step e vd url fn rc mr rd w")
    case (Done y)
    then show ?thesis by (simp add: downloadVideo_unfold [of e vd url fn])
  next
    case (Again f1 rc1 mr1 rd1 w1)
    from dv_step_Again_retry [OF assms(1) Again] have
      eq: "rc1 = rc + 1" "mr1 = mr" "rd1 = rd" and lt: "rc < mr" by simp_all
    from Suc.hyps(2) lt have "k = mr - (rc + 1)" by simp
    from Suc.hyps(1) [OF this, of f1 w1] obtain y where
      "downloadVideo e vd url f1 (rc + 1) mr rd w1 = Some y" by (elim exE)
    with Again eq show ?thesis by (simp add: downloadVideo_unfold [of e vd url fn])
  next
    case (Stuck w1)
    with dv_step_not_Stuck [OF assms(2)] show ?thesis by blast
  qed
qed

lemma record_outcome_returns:
  "res = Some y \<Longrightarrow> \<exists>out w'. record_outcome c res = Some (out, w') \<and> entry_matches c out"
  by (cases y; cases "fst y")
     (auto simp add: record_outcome_def entry_matches_def)

lemma record_outcome_matches:
  "record_outcome c res = Some (out, w') \<Longrightarrow> entry_matches c out"
  by (auto simp add: record_outcome_def entry_matches_def
        split: option.splits sum.splits prod.splits if_splits)

lemma process_call_matches:
  "process_call e vd c w = Some (out, w') \<Longrightarrow> entry_matches c out"
  by (cases "truthy (call_videoUrl c)")
     (auto simp add: process_call_def entry_matches_def Let_def
        split: prod.splits dest: record_outcome_matches)

lemma process_call_returns:
  assumes "never_429 e" "streams_end e"
  shows "\<exists>out w'. process_call e vd c w = Some (out, w')"
proof (cases "truthy (call_videoUrl c)")
  case False
  then show ?thesis by (simp add: process_call_def)
next
  case True
  let ?v = "the (call_videoUrl c)"
  from downloadVideo_returns [OF assms, of vd "Some (fst (refresh_url vd c ?v w))"
      "Some (call_filename e c ?v)" 0 3 2000 "snd (refresh_url vd c ?v w)"] obtain y where
    "downloadVideo e vd (Some (fst (refresh_url vd c ?v w))) (Some (call_filename e c ?v)) 0 3 2000
       (snd (refresh_url vd c ?v w)) = Some y" by (elim exE)
  from record_outcome_returns [OF this, of c] show ?thesis
    unfolding process_call_unfold [OF True] by blast
qed

lemma process_calls_partition:
  "process_calls e vd calls ds fs w = Some (ds', fs', w') \<Longrightarrow>
     \<exists>outs. list_all2 entry_matches calls outs
          \<and> ds' = ds @ successes outs \<and> fs' = fs @ failures outs"
proof (induction calls arbitrary: ds fs w)
  case Nil
  then show ?case by (intro exI [where x = "[]"]) (simp add: successes_def failures_def)
next
  case (Cons c cs)
  from Cons.prems obtain out w1 where step: "process_call e vd c w = Some (out, w1)"
    by (cases "process_call e vd c w") auto
  have m: "entry_matches c out" by (rule process_call_matches [OF step])
  show ?case
  proof (cases out)
    case (Downloaded d)
    with Cons.prems step have "process_calls e vd cs (ds @ [d]) fs w1 = Some (ds', fs', w')"
      by simp
    from Cons.IH [OF this] obtain outs where
      "list_all2 entry_matches cs outs" "ds' = (ds @ [d]) @ successes outs"
      "fs' = fs @ failures outs" by (elim exE conjE)
    with m Downloaded show ?thesis
      by (intro exI [where x = "out # outs"]) (simp add: successes_def failures_def)
  next
    case (Failed f)
    with Cons.prems step have "process_calls e vd cs ds (fs @ [f]) w1 = Some (ds', fs', w')"
      by simp
    from Cons.IH [OF this] obtain outs where
      "list_all2 entry_matches cs outs" "ds' = ds @ successes outs"
      "fs' = (fs @ [f]) @ failures outs" by (elim exE conjE)
    with m Failed show ?thesis
      by (intro exI [where x = "out # outs"]) (simp add: successes_def failures_def)
  qed
qed

lemma process_calls_returns:
  assumes "never_429 e" "streams_end e"
  shows "\<exists>r. process_calls e vd calls ds fs w = Some r"
proof (induction calls arbitrary: ds fs w)
  case Nil
  show ?case by simp
next
  case (Cons c cs)
  from process_call_returns [OF assms, of vd c w] obtain out w1 where
    step: "process_call e vd c w = Some (out, w1)" by (elim exE)
  show ?case
  proof (cases out)
    case (Downloaded d)
    with step Cons.IH [of "ds @ [d]" fs w1] show ?thesis by simp
  next
    case (Failed f)
    with step Cons.IH [of ds "fs @ [f]" w1] show ?thesis by simp
  qed
qed

section \<open>The claims\<close>

subsection \<open>C10: a download without a URL\<close>

text \<open>
  C10. Called with a null, undefined or empty URL, \<^verbatim>\<open>downloadVideo\<close> returns
  \<^verbatim>\<open>null\<close> without raising, and the world it leaves is the world it found: no
  directory or file is created, no request is issued, no timer is awaited, and the
  rate-limit state (current calls, reset time, last-call time) is unchanged.
\<close>

theorem downloadVideo_without_url:
  "downloadVideo e vd None filename retryCount maxRetries retryDelay w = Some (Inr None, w)
   \<and> downloadVideo e vd (Some []) filename retryCount maxRetries retryDelay w = Some (Inr None, w)"
  by (simp add: downloadVideo.simps truthy_def)

theorem downloadVideo_without_url_witness:
  "downloadVideo (rejecting (http_error 403 None)) vd0 None (Some ''c1.mp4'') 0 3 2000
       (start_world {} 1000)
     = Some (Inr None, start_world {} 1000)
   \<and> downloadVideo (rejecting (http_error 403 None)) vd0 (Some []) (Some ''c1.mp4'') 0 3 2000
       (start_world {} 1000)
     = Some (Inr None, start_world {} 1000)"
  using downloadVideo_without_url
    [of "rejecting (http_error 403 None)" vd0 "Some ''c1.mp4''" 0 3 2000 "start_world {} 1000"]
  by simp

subsection \<open>C8: the rate limiter\<close>

text \<open>
  C8, as stated, says that the rate limiter runs before every network attempt, the
  resolution of signed URLs included. \<^verbatim>\<open>getSignedMediaUrl\<close> never consults it: here
  its three requests leave at the same clock value, no timer is awaited and the
  rate-limit state is untouched.
\<close>

theorem signed_url_requests_bypass_rate_limiter:
  "map fst (requests (snd (getSignedMediaUrl (rejecting (http_error 405 None)) gong0 ''c1''
             (start_world {} 1000)))) = [1000, 1000, 1000]
   \<and> sleeps (snd (getSignedMediaUrl (rejecting (http_error 405 None)) gong0 ''c1''
             (start_world {} 1000))) = []
   \<and> rateLimit (snd (getSignedMediaUrl (rejecting (http_error 405 None)) gong0 ''c1''
             (start_world {} 1000))) = initial_rateLimit 1000"
  by (simp add: getSignedMediaUrl_def try_delete_def send_def rejecting_def env_of_def
        start_world_def)

text \<open>
  C8, amended. Before every download attempt of \<^verbatim>\<open>downloadVideo\<close> (and only there)
  the rate limiter renews the daily window when it has expired, waits until the window
  resets when the daily ceiling is reached, and waits for what is missing of
  \<open>1000 / callsPerSecond + 50\<close> milliseconds since the last call. So every pass of
  \<^verbatim>\<open>downloadVideo\<close> starts its attempt at least \<open>1000 / callsPerSecond + 50\<close>
  milliseconds after the last call and leaves the rate limiter in a state from which
  the same holds again; and in every run that returns, each attempt starts at least
  that long after the one before it. This is for a rate that divides 1000 (the
  constructor sets 2, which gives 550 ms), from a state in which the last call is not
  in the future and the daily window ends at most 24 hours ahead.
\<close>

theorem rate_limiter_gates_download_attempts:
  assumes "limiter_ok w"
  shows "rate_limit_contract w
   \<and> (\<forall>e vd url filename retryCount maxRetries retryDelay.
         spaced (1000 / of_nat (callsPerSecond (rateLimit w)) + 50) (lastCallTime (rateLimit w))
           (attempt_times (new_requests w
              (pass_world (dv_step e vd url filename retryCount maxRetries retryDelay w))))
         \<and> limiter_ok (pass_world (dv_step e vd url filename retryCount maxRetries retryDelay w))
         \<and> callsPerSecond
              (rateLimit (pass_world (dv_step e vd url filename retryCount maxRetries retryDelay w)))
             = callsPerSecond (rateLimit w)
         \<and> lastCallTime
              (rateLimit (pass_world (dv_step e vd url filename retryCount maxRetries retryDelay w)))
             = last (lastCallTime (rateLimit w) # attempt_times (new_requests w
                  (pass_world (dv_step e vd url filename retryCount maxRetries retryDelay w)))))
   \<and> (\<forall>e vd url filename retryCount maxRetries retryDelay r w2.
         downloadVideo e vd url filename retryCount maxRetries retryDelay w = Some (r, w2)
         \<longrightarrow> spaced (1000 / of_nat (callsPerSecond (rateLimit w)) + 50)
               (lastCallTime (rateLimit w)) (attempt_times (new_requests w w2)))"
proof -
  have pass: "spaced (1000 / of_nat (callsPerSecond (rateLimit w)) + 50) (lastCallTime (rateLimit w))
           (attempt_times (new_requests w (pass_world (dv_step e vd url fn rc mr rd w))))
         \<and> limiter_ok (pass_world (dv_step e vd url fn rc mr rd w))
         \<and> callsPerSecond (rateLimit (pass_world (dv_step e vd url fn rc mr rd w)))
             = callsPerSecond (rateLimit w)
         \<and> lastCallTime (rateLimit (pass_world (dv_step e vd url fn rc mr rd w)))
             = last (lastCallTime (rateLimit w) # attempt_times (new_requests w
                  (pass_world (dv_step e vd url fn rc mr rd w))))"
    for e vd url fn rc mr rd
    using dv_step_gated [OF assms, of e vd url fn rc mr rd]
    by (auto simp: gated_def new_requests_def)
  have run: "spaced (1000 / of_nat (callsPerSecond (rateLimit w)) + 50) (lastCallTime (rateLimit w))
          (attempt_times (new_requests w w2))"
    if "downloadVideo e vd url fn rc mr rd w = Some (r, w2)" for e vd url fn rc mr rd r w2
    using downloadVideo_gated [OF that assms] by (auto simp: gated_def new_requests_def)
  from respectRateLimit_contract [OF assms] pass run show ?thesis by blast
qed

theorem rate_limiter_gates_download_attempts_witness:
  "limiter_ok recently_called
   \<and> delays Spacing (new_sleeps recently_called (respectRateLimit recently_called)) = [Some 450]
   \<and> delays DailyQuota (new_sleeps recently_called (respectRateLimit recently_called)) = []
   \<and> now (respectRateLimit recently_called) = 1450
   \<and> lastCallTime (rateLimit (respectRateLimit recently_called)) = 1450
   \<and> currentCalls (rateLimit (respectRateLimit recently_called)) = 8
   \<and> limiter_ok quota_used
   \<and> delays DailyQuota (new_sleeps quota_used (respectRateLimit quota_used)) = [Some 5000]
   \<and> delays Spacing (new_sleeps quota_used (respectRateLimit quota_used)) = []
   \<and> now (respectRateLimit quota_used) = 6000
   \<and> currentCalls (rateLimit (respectRateLimit quota_used)) = 1
   \<and> limiter_ok window_over
   \<and> resetTime (rateLimit (respectRateLimit window_over)) = 86401000
   \<and> currentCalls (rateLimit (respectRateLimit window_over)) = 1
   \<and> now (respectRateLimit window_over) = 1000
   \<and> (\<exists>r w2. downloadVideo (rejecting (http_error 403 None)) vd0 (Some s3_url)
                (Some ''c1.mp4'') 0 3 2000 recently_called = Some (r, w2)
          \<and> attempt_times (new_requests recently_called w2) = [1450, 3450, 7450, 15450]
          \<and> delays Spacing (new_sleeps recently_called w2) = [Some 450]
          \<and> spaced (1000 / 2 + 50) 900 (attempt_times (new_requests recently_called w2)))"
proof -
  have ok: "limiter_ok recently_called" "limiter_ok quota_used" "limiter_ok window_over"
    by (simp_all add: limiter_ok_def recently_called_def quota_used_def window_over_def)
  have a: "delays Spacing (new_sleeps recently_called (respectRateLimit recently_called)) = [Some 450]
   \<and> delays DailyQuota (new_sleeps recently_called (respectRateLimit recently_called)) = []
   \<and> now (respectRateLimit recently_called) = 1450
   \<and> lastCallTime (rateLimit (respectRateLimit recently_called)) = 1450
   \<and> currentCalls (rateLimit (respectRateLimit recently_called)) = 8"
    using rate_limiter_gates_download_attempts [OF ok(1)]
    by (auto simp add: rate_limit_contract_def Let_def recently_called_def)
  have b: "delays DailyQuota (new_sleeps quota_used (respectRateLimit quota_used)) = [Some 5000]
   \<and> delays Spacing (new_sleeps quota_used (respectRateLimit quota_used)) = []
   \<and> now (respectRateLimit quota_used) = 6000
   \<and> currentCalls (rateLimit (respectRateLimit quota_used)) = 1"
    using rate_limiter_gates_download_attempts [OF ok(2)]
    by (auto simp add: rate_limit_contract_def Let_def quota_used_def)
  have c: "resetTime (rateLimit (respectRateLimit window_over)) = 86401000
   \<and> currentCalls (rateLimit (respectRateLimit window_over)) = 1
   \<and> now (respectRateLimit window_over) = 1000"
    using rate_limiter_gates_download_attempts [OF ok(3)]
    by (auto simp add: rate_limit_contract_def Let_def window_over_def)
  obtain r w2 where run: "downloadVideo (rejecting (http_error 403 None)) vd0 (Some s3_url)
      (Some ''c1.mp4'') 0 3 2000 recently_called = Some (r, w2)"
    and times: "attempt_times (new_requests recently_called w2) = [1450, 3450, 7450, 15450]"
    and sp: "delays Spacing (new_sleeps recently_called w2) = [Some 450]"
    by (simp add: downloadVideo.simps model_defs recently_called_def s3_url_is_s3 s3_url_nonempty
          attempt_times_def new_requests_def new_sleeps_def)
  have cps: "callsPerSecond (rateLimit recently_called) = 2"
    "lastCallTime (rateLimit recently_called) = 900"
    by (simp_all add: recently_called_def)
  from rate_limiter_gates_download_attempts [OF ok(1)] run
  have "spaced (1000 / of_nat (callsPerSecond (rateLimit recently_called)) + 50)
               (lastCallTime (rateLimit recently_called))
               (attempt_times (new_requests recently_called w2))" by blast
  then have s: "spaced (1000 / 2 + 50) 900 (attempt_times (new_requests recently_called w2))"
    unfolding cps by simp
  from ok a b c run times sp s show ?thesis by blast
qed

subsection \<open>C5: the signed-URL resolver\<close>

text \<open>
  C5, as stated, says that the resolver returns \<^verbatim>\<open>null\<close> when no attempt finds a URL
  and raises only for a missing access grant. Here the first PUT is reset by the peer
  (there is no HTTP answer at all), the second PUT and the DELETE are answered
  successfully with bodies that hold no URL, and the resolver raises the error of the
  first PUT.
\<close>

theorem getSignedMediaUrl_rethrows_first_error:
  "fst (getSignedMediaUrl first_rejected_then_empty gong0 ''c1'' (start_world {} 1000))
     = Inl connection_reset"
  by (simp add: getSignedMediaUrl_def try_delete_def send_def first_rejected_then_empty_def
        env_of_def start_world_def truthy_def)

text \<open>
  C5, amended. \<^verbatim>\<open>getSignedMediaUrl\<close> first sends PUT with content type
  \<^verbatim>\<open>application/octet-stream\<close>. When that request succeeds it is the only one: the
  result is the \<^verbatim>\<open>url\<close> of its body, or \<^verbatim>\<open>null\<close> when the body has none. When it
  fails, PUT with \<^verbatim>\<open>text/plain\<close> and then DELETE are tried and the first URL found
  is returned; when neither yields a URL the error of the first PUT is raised again,
  whatever its cause. Nothing but the request log changes.
\<close>

theorem getSignedMediaUrl_resolution:
  "(let n = length (requests w);
        first = net e n (put_octet g callId);
        second = net e (n + 1) (put_plain g callId);
        third = net e (n + 2) (delete_media g callId);
        (result, w') = getSignedMediaUrl e g callId w
    in files w' = files w \<and> now w' = now w \<and> rateLimit w' = rateLimit w \<and> sleeps w' = sleeps w
     \<and> (case first of
           Resolved u \<Rightarrow>
             result = Inr (if truthy u then u else None)
             \<and> map snd (new_requests w w') = [put_octet g callId]
         | Rejected putError \<Rightarrow>
             if yields_url second
             then result = Inr (body_url second)
                  \<and> map snd (new_requests w w') = [put_octet g callId, put_plain g callId]
             else map snd (new_requests w w')
                    = [put_octet g callId, put_plain g callId, delete_media g callId]
                  \<and> result = (if yields_url third then Inr (body_url third) else Inl putError)))"
  by (auto simp add: getSignedMediaUrl_def try_delete_def send_def new_requests_def yields_url_def
        body_url_def Let_def split: response.splits)

theorem getSignedMediaUrl_resolution_witness:
  "fst (getSignedMediaUrl second_has_url gong0 ''c1'' (start_world {} 1000))
     = Inr (Some ''https://gong-media.s3.amazonaws.com/signed/c1.mp4'')
   \<and> map snd (requests (snd (getSignedMediaUrl second_has_url gong0 ''c1'' (start_world {} 1000))))
     = [put_octet gong0 ''c1'', put_plain gong0 ''c1'']"
  using getSignedMediaUrl_resolution [of "start_world {} 1000" second_has_url gong0 "''c1''"]
  by (simp add: second_has_url_def env_of_def start_world_def yields_url_def body_url_def
        truthy_def new_requests_def split: prod.splits)

subsection \<open>C3: retries with exponential backoff\<close>




subsection \<open>C4: HTTP 429\<close>




subsection \<open>C7: the unauthenticated request comes first\<close>

text \<open>
  C7. Every pass of \<^verbatim>\<open>downloadVideo\<close>, whether the call returns or not, issues no
  request, or one GET request without \<^verbatim>\<open>Authorization\<close> header, which has succeeded,
  or that request, which has failed, followed by one GET request for the same URL
  whose \<^verbatim>\<open>Authorization\<close> header is \<^verbatim>\<open>Basic\<close> and the token. A pass that finds the
  directory and nothing at the destination of a file in it does issue the first request, and the
  second exactly when the first was rejected. So in every run that returns each
  attempt starts with the unauthenticated request, and the authenticated one follows
  exactly when that failed, once.
\<close>

theorem unauthenticated_first_then_authenticated_once:
  "(let w1 = pass_world (dv_step e vd url filename retryCount maxRetries retryDelay w);
        n = length (requests w);
        authorizations = map (\<lambda>q. req_authorization (snd q)) (new_requests w w1)
    in one_attempt e (basicToken vd) (the url) n (map snd (new_requests w w1))
     \<and> (authorizations = [] \<or> authorizations = [None]
          \<or> authorizations = [None, Some (''Basic '' @ basicToken vd)])
     \<and> (truthy url \<and> downloadsDir vd \<in> files w \<and> destination vd url filename \<notin> files w
           \<and> names_a_file (file_name url filename)
          \<longrightarrow> authorizations
                = (if is_resolved (net e n (plain_get (the url))) then [None]
                   else [None, Some (''Basic '' @ basicToken vd)])
              \<and> list_all (\<lambda>q. req_method (snd q) = GET \<and> req_url (snd q) = the url)
                   (new_requests w w1)))
   \<and> (\<forall>r w'. downloadVideo e vd url filename retryCount maxRetries retryDelay w = Some (r, w')
         \<longrightarrow> attempts_ok e (basicToken vd) (the url) (length (requests w))
               (map snd (new_requests w w')))"
proof -
  let ?w1 = "pass_world (dv_step e vd url filename retryCount maxRetries retryDelay w)"
  let ?rs = "map snd (new_requests w ?w1)"
  let ?auths = "map (\<lambda>q. req_authorization (snd q)) (new_requests w ?w1)"
  have a: "?auths = map req_authorization ?rs" by (simp add: comp_def)
  have 1: "one_attempt e (basicToken vd) (the url) (length (requests w)) ?rs"
    by (rule dv_step_one_attempt)
  have shape: "rs = [] \<or> (\<exists>r1. rs = [r1] \<and> req_authorization r1 = None)
       \<or> (\<exists>r1 r2. rs = [r1, r2] \<and> req_authorization r1 = None
             \<and> req_authorization r2 = Some (''Basic '' @ tok))"
    if "one_attempt e tok u n rs" for tok u n rs
    using that
    by (induction e tok u n rs rule: one_attempt.induct)
       (auto simp: unauthenticated_def authenticated_def)
  have 2: "?auths = [] \<or> ?auths = [None] \<or> ?auths = [None, Some (''Basic '' @ basicToken vd)]"
    unfolding a using shape [OF 1] by auto
  have 3: "?auths = (if is_resolved (net e (length (requests w)) (plain_get (the url))) then [None]
                   else [None, Some (''Basic '' @ basicToken vd)])
         \<and> list_all (\<lambda>q. req_method (snd q) = GET \<and> req_url (snd q) = the url)
                   (new_requests w ?w1)"
    if "truthy url \<and> downloadsDir vd \<in> files w \<and> destination vd url filename \<notin> files w
           \<and> names_a_file (file_name url filename)"
  proof -
    from that have "?rs = (if is_resolved (net e (length (requests w)) (plain_get (the url)))
        then [plain_get (the url)]
        else [plain_get (the url), auth_get (basicToken vd) (the url)])"
      using dv_step_network [of url vd w filename e retryCount maxRetries retryDelay] by blast
    then have "map req_authorization ?rs
        = (if is_resolved (net e (length (requests w)) (plain_get (the url))) then [None]
           else [None, Some (''Basic '' @ basicToken vd)])
      \<and> list_all (\<lambda>r. req_method r = GET \<and> req_url r = the url) ?rs"
      by (simp add: plain_get_def auth_get_def)
    then show ?thesis unfolding a by (simp add: list_all_iff)
  qed
  have 4: "attempts_ok e (basicToken vd) (the url) (length (requests w))
               (map snd (new_requests w w'))"
    if "downloadVideo e vd url filename retryCount maxRetries retryDelay w = Some (r, w')" for r w'
  proof -
    from downloadVideo_attempts [OF that] obtain ext where
      "requests w' = requests w @ ext"
      "attempts_ok e (basicToken vd) (the url) (length (requests w)) (map snd ext)"
      unfolding snd_conv by (elim exE conjE)
    then show ?thesis by (simp add: new_requests_def)
  qed
  from 1 2 3 4 show ?thesis unfolding Let_def by blast
qed

theorem unauthenticated_first_then_authenticated_once_witness:
  "\<exists>r w'. downloadVideo second_has_url vd0 (Some s3_url) (Some ''c1.mp4'') 0 3 2000
              (start_world {''exports/videos''} 1000) = Some (r, w')
      \<and> pass_world (dv_step second_has_url vd0 (Some s3_url) (Some ''c1.mp4'') 0 3 2000
              (start_world {''exports/videos''} 1000)) = w'
      \<and> map (\<lambda>q. req_authorization (snd q)) (new_requests (start_world {''exports/videos''} 1000) w')
          = [None, Some ''Basic a2V5OnNlY3JldA=='']
      \<and> map (\<lambda>q. req_method (snd q)) (new_requests (start_world {''exports/videos''} 1000) w')
          = [GET, GET]
      \<and> map (\<lambda>q. req_url (snd q)) (new_requests (start_world {''exports/videos''} 1000) w')
          = [s3_url, s3_url]
      \<and> attempts_ok second_has_url (basicToken vd0) s3_url
            (length (requests (start_world {''exports/videos''} 1000)))
            (map snd (new_requests (start_world {''exports/videos''} 1000) w'))"
proof -
  let ?w = "start_world {''exports/videos''} 1000"
  let ?e = second_has_url
  obtain r w' where run: "downloadVideo ?e vd0 (Some s3_url) (Some ''c1.mp4'') 0 3 2000
      ?w = Some (r, w')"
    and pass: "dv_step ?e vd0 (Some s3_url) (Some ''c1.mp4'') 0 3 2000 ?w = Done (r, w')"
    by (simp add: downloadVideo_unfold dv_step_def second_has_url_def model_defs s3_url_nonempty)
  have h: "truthy (Some s3_url) \<and> downloadsDir vd0 \<in> files ?w
      \<and> destination vd0 (Some s3_url) (Some ''c1.mp4'') \<notin> files ?w
      \<and> names_a_file (file_name (Some s3_url) (Some ''c1.mp4''))"
    by (simp add: destination_def model_defs s3_url_nonempty names_a_file_def file_name_def)
  have first: "\<not> is_resolved (net ?e (length (requests ?w)) (plain_get (the (Some s3_url))))"
    by (simp add: second_has_url_def env_of_def start_world_def is_resolved_def)
  have tok: "basicToken vd0 = ''a2V5OnNlY3JldA==''" by (simp add: vd0_def)
  note inst = unauthenticated_first_then_authenticated_once
      [of ?e vd0 "Some s3_url" "Some ''c1.mp4''" 0 3 2000 ?w, unfolded Let_def pass pass_world.simps]
  from inst h first have auths: "map (\<lambda>q. req_authorization (snd q)) (new_requests ?w w')
          = [None, Some ''Basic a2V5OnNlY3JldA=='']"
    and all: "list_all (\<lambda>q. req_method (snd q) = GET \<and> req_url (snd q) = the (Some s3_url))
                   (new_requests ?w w')"
    by (simp_all add: tok)
  from auths have len: "length (new_requests ?w w') = 2" by (metis length_map length_Cons list.size(3) numeral_2_eq_2)
  from inst run have ok: "attempts_ok ?e (basicToken vd0) s3_url (length (requests ?w))
            (map snd (new_requests ?w w'))"
    by simp
  from len obtain q1 q2 where q: "new_requests ?w w' = [q1, q2]"
    by (cases "new_requests ?w w'"; cases "tl (new_requests ?w w')") auto
  from all have m: "map (\<lambda>q. req_method (snd q)) (new_requests ?w w') = [GET, GET]"
    and u: "map (\<lambda>q. req_url (snd q)) (new_requests ?w w') = [s3_url, s3_url]"
    unfolding q by simp_all
  from run pass auths m u ok show ?thesis
    by (intro exI [where x = r] exI [where x = w']) simp
qed

subsection \<open>C6: the refreshed URL comes first\<close>




subsection \<open>C9: the storage directory cannot be created\<close>

text \<open>
  C9, as stated, says that the failure aborts the whole run. Here the videos go to a
  volume of their own whose directory cannot be created, and the exports directory
  exists: the method returns normally with an empty list of successes, and each of
  the two calls has its own entry among the failures.
\<close>

theorem directory_failure_does_not_abort:
  "map_option fst (downloadVideosFromExtensiveCalls no_mkdir vd_volume (Some [call1, call1])
       (start_world {''exports''} 1000)) = Some (Inr [])
   \<and> map f_error (run_failures (process_calls no_mkdir vd_volume [call1, call1] [] []
       (start_world {''exports''} 1000)))
     = [Some ''Could not create downloads directory: EACCES: permission denied'',
        Some ''Could not create downloads directory: EACCES: permission denied'']"
  by (simp add: downloadVideosFromExtensiveCalls_def call_defs no_mkdir_def vd_volume_def
        downloadVideo.simps model_defs s3_url_nonempty Error_def failedPath_def)

text \<open>
  C9, amended. When the storage directory is missing and cannot be created,
  \<^verbatim>\<open>downloadVideo\<close> throws "Could not create downloads directory: ..." before any
  request; the loop catches it at the call, records a failure that carries this
  message, and goes on with the next call. When the loop has completed (it does when
  no request is answered 429 and every response stream ends), the method writes the
  file of the failures, which is not empty, and returns the successes; it throws only
  when that write fails, which nothing in the method catches.
\<close>

theorem directory_failure_is_recorded_per_call:
  assumes "truthy (call_videoUrl c)"
    and "refresh_url vd c (the (call_videoUrl c)) w = (u, w1)"
    and "downloadsDir vd \<notin> files w1"
    and "mkdir_error e (downloadsDir vd) = Some m"
  shows "(let entry = \<lparr>f_callId = (if truthy (call_id c) then call_id c else Some ''unknown''),
                        f_title = call_title c, f_reason = None,
                        f_error = Some (''Could not create downloads directory: '' @ m)\<rparr>
          in downloadVideo e vd (Some u) filename retryCount maxRetries retryDelay w1
               = Some (Inl (Error (''Could not create downloads directory: '' @ m)), w1)
           \<and> process_calls e vd (c # cs) downloadedFiles failedDownloads w
               = process_calls e vd cs downloadedFiles (failedDownloads @ [entry]) w1
           \<and> (\<forall>ds fs w'. process_calls e vd cs [] [entry] w1 = Some (ds, fs, w')
                 \<longrightarrow> fs \<noteq> []
                     \<and> downloadVideosFromExtensiveCalls e vd (Some (c # cs)) w
                         = (case write_error e (failedPath e w') of
                              None \<Rightarrow> Some (Inr ds, w'\<lparr>files := insert (failedPath e w')
                                                                   (files w')\<rparr>)
                            | Some m' \<Rightarrow> Some (Inl (Error m'), w')))
           \<and> (never_429 e \<and> streams_end e
                 \<longrightarrow> (\<exists>ds fs w'. process_calls e vd cs [] [entry] w1 = Some (ds, fs, w'))))"
proof -
  let ?entry = "\<lparr>f_callId = (if truthy (call_id c) then call_id c else Some ''unknown''),
                        f_title = call_title c, f_reason = None,
                        f_error = Some (''Could not create downloads directory: '' @ m)\<rparr>"
  from assms(1) have "the (call_videoUrl c) \<noteq> []" by (cases "call_videoUrl c") simp_all
  from refresh_url_truthy [OF this assms(2)] have u: "u \<noteq> []" .
  have dv: "downloadVideo e vd (Some u) fn rc mr rd w1
           = Some (Inl (Error (''Could not create downloads directory: '' @ m)), w1)"
    for fn rc mr rd
    using u assms(3,4) by (subst downloadVideo.simps) (simp add: ensure_dir_def)
  have pc: "process_call e vd c w = Some (Failed ?entry, w1)"
    using assms(1,2) dv by (simp add: process_call_def record_outcome_def Let_def Error_def)
  then have step: "process_calls e vd (c # cs) ds fs w = process_calls e vd cs ds (fs @ [?entry]) w1"
    for ds fs by simp
  have res: "fs \<noteq> []
      \<and> downloadVideosFromExtensiveCalls e vd (Some (c # cs)) w
          = (case write_error e (failedPath e w') of
               None \<Rightarrow> Some (Inr ds, w'\<lparr>files := insert (failedPath e w') (files w')\<rparr>)
             | Some m' \<Rightarrow> Some (Inl (Error m'), w'))"
    if run: "process_calls e vd cs [] [?entry] w1 = Some (ds, fs, w')" for ds fs w'
  proof -
    from process_calls_partition [OF run] obtain outs where "fs = [?entry] @ failures outs"
      by (elim exE conjE)
    then have ne: "fs \<noteq> []" by simp
    from step [of "[]" "[]"] run have "process_calls e vd (c # cs) [] [] w = Some (ds, fs, w')"
      by simp
    with ne show ?thesis
      by (simp add: downloadVideosFromExtensiveCalls_def split: option.split)
  qed
  have completes: "\<exists>ds fs w'. process_calls e vd cs [] [?entry] w1 = Some (ds, fs, w')"
    if "never_429 e \<and> streams_end e"
    using process_calls_returns [of e vd cs "[]" "[?entry]" w1] that by auto
  from dv step res completes show ?thesis unfolding Let_def by blast
qed

theorem directory_failure_is_recorded_per_call_witness:
  "downloadVideo no_mkdir vd_volume (Some s3_url) (Some ''c1.mp4'') 0 3 2000
       (start_world {''exports''} 1000)
     = Some (Inl (Error ''Could not create downloads directory: EACCES: permission denied''),
             start_world {''exports''} 1000)
   \<and> process_calls no_mkdir vd_volume [call1] [] [] (start_world {''exports''} 1000)
     = Some ([], [\<lparr>f_callId = Some ''c1'', f_title = ''Weekly Sync'', f_reason = None,
                    f_error = Some ''Could not create downloads directory: EACCES: permission denied''\<rparr>],
             start_world {''exports''} 1000)
   \<and> downloadVideosFromExtensiveCalls no_mkdir vd_volume (Some [call1])
       (start_world {''exports''} 1000)
     = Some (Inr [], (start_world {''exports''} 1000)
                       \<lparr>files := insert (failedPath no_mkdir (start_world {''exports''} 1000))
                                   (files (start_world {''exports''} 1000))\<rparr>)"
proof -
  let ?w = "start_world {''exports''} 1000"
  have h: "truthy (call_videoUrl call1)"
    "refresh_url vd_volume call1 (the (call_videoUrl call1)) ?w = (s3_url, ?w)"
    "downloadsDir vd_volume \<notin> files ?w"
    "mkdir_error no_mkdir (downloadsDir vd_volume) = Some ''EACCES: permission denied''"
    by (simp_all add: call_defs s3_url_nonempty vd0_def vd_volume_def no_mkdir_def env_of_def
          start_world_def downloadsDir_def)
  have wr: "write_error no_mkdir p = None" for p by (simp add: no_mkdir_def env_of_def)
  from directory_failure_is_recorded_per_call
         [OF h, of "Some ''c1.mp4''" 0 3 2000 "[]" "[]" "[]"]
  show ?thesis
    by (simp add: call_defs Let_def wr)
qed

subsection \<open>C2: files that exist are not downloaded again\<close>

text \<open>
  C2. When the file already exists at the path computed for a (non-empty) URL and file
  name, \<^verbatim>\<open>downloadVideo\<close> returns that path and leaves the world as it found it: no
  request, no timer, no change of the rate-limit state. Hence, when the file of every
  call of a list exists, the loop records every call as a success and the only effects
  are those of the refresh callbacks (none at all without a callback); in particular
  a second run over the same calls, after a first run that recorded no failure, issues
  no download request and records the same successes. The refresh callback is assumed
  not to touch the files, as the callback of the export does not.
\<close>

theorem existing_file_is_not_downloaded_again:
  "(u \<noteq> [] \<and> downloadsDir vd \<in> files w \<and> destination vd (Some u) filename \<in> files w
      \<longrightarrow> downloadVideo e vd (Some u) filename retryCount maxRetries retryDelay w
            = Some (Inr (Some (destination vd (Some u) filename)), w))
   \<and> (hook_keeps_files vd \<and> downloadsDir vd \<in> files w
        \<and> (\<forall>c\<in>set calls. truthy (call_videoUrl c) \<and> call_path e vd c \<in> files w)
      \<longrightarrow> process_calls e vd calls ds fs w
            = Some (ds @ map (completed e vd) calls, fs, refresh_all vd calls w))
   \<and> (hook_keeps_files vd \<and> process_calls e vd calls [] [] w0 = Some (ds1, [], w)
      \<longrightarrow> process_calls e vd calls [] [] w = Some (ds1, [], refresh_all vd calls w))
   \<and> (refreshUrlCallback vd = None \<longrightarrow> refresh_all vd calls w = w)"
proof (intro conjI impI)
  assume "u \<noteq> [] \<and> downloadsDir vd \<in> files w \<and> destination vd (Some u) filename \<in> files w"
  then show "downloadVideo e vd (Some u) filename retryCount maxRetries retryDelay w
            = Some (Inr (Some (destination vd (Some u) filename)), w)"
    using downloadVideo_stored by blast
next
  assume "hook_keeps_files vd \<and> downloadsDir vd \<in> files w
        \<and> (\<forall>c\<in>set calls. truthy (call_videoUrl c) \<and> call_path e vd c \<in> files w)"
  then show "process_calls e vd calls ds fs w
            = Some (ds @ map (completed e vd) calls, fs, refresh_all vd calls w)"
    using process_calls_stored by blast
next
  assume a: "hook_keeps_files vd \<and> process_calls e vd calls [] [] w0 = Some (ds1, [], w)"
  then have k: "hook_keeps_files vd"
    and run: "process_calls e vd calls [] [] w0 = Some (ds1, [], w)" by simp_all
  from process_calls_files [OF k run] have
    ds1: "ds1 = map (completed e vd) calls"
    and all: "\<forall>c\<in>set calls. truthy (call_videoUrl c) \<and> call_path e vd c \<in> files w"
    and dir: "calls \<noteq> [] \<longrightarrow> downloadsDir vd \<in> files w"
    by simp_all
  show "process_calls e vd calls [] [] w = Some (ds1, [], refresh_all vd calls w)"
  proof (cases calls)
    case Nil
    with ds1 show ?thesis by (simp add: refresh_all_def)
  next
    case (Cons c cs)
    with dir have "downloadsDir vd \<in> files w" by simp
    from process_calls_stored [OF k this all, of "[]" "[]"] ds1 show ?thesis by simp
  qed
next
  assume "refreshUrlCallback vd = None"
  then show "refresh_all vd calls w = w" by (rule refresh_all_None)
qed

theorem existing_file_is_not_downloaded_again_witness:
  "\<exists>ds w1. process_calls answers_without_url (vd_refreshing answers_without_url) [call1] [] []
               (start_world {} 1000) = Some (ds, [], w1)
      \<and> process_calls answers_without_url (vd_refreshing answers_without_url) [call1] [] [] w1
          = Some (ds, [], refresh_all (vd_refreshing answers_without_url) [call1] w1)
      \<and> map snd (new_requests w1 (refresh_all (vd_refreshing answers_without_url) [call1] w1))
          = [put_octet gong0 ''c1'']
      \<and> downloadVideo answers_without_url (vd_refreshing answers_without_url) (Some s3_url)
           (Some ''2024-03-01_c1_weekly_sync.mp4'') 0 3 2000 w1
          = Some (Inr (Some ''exports/videos/2024-03-01_c1_weekly_sync.mp4''), w1)"
proof -
  let ?e = answers_without_url
  let ?vd = "vd_refreshing ?e"
  have fn: "call_filename ?e call1 s3_url = ''2024-03-01_c1_weekly_sync.mp4''"
    by (simp add: answers_without_url_def call1_filename)
  have c1: "call_videoUrl call1 = Some s3_url" "call_id call1 = Some ''c1''"
    by (simp_all add: call_defs)
  have hook: "export_refresh ?e gong0 ''c1'' w
                = (Hook_returned None, w\<lparr>requests := requests w @ [(now w, put_octet gong0 ''c1'')]\<rparr>)"
    for w
    by (simp add: export_refresh_def getSignedMediaUrl_def send_def answers_without_url_def
          env_of_def)
  have pc: "process_call ?e ?vd call1 w
          = record_outcome call1 (downloadVideo ?e ?vd (Some s3_url)
              (Some ''2024-03-01_c1_weekly_sync.mp4'') 0 3 2000
              (w\<lparr>requests := requests w @ [(now w, put_octet gong0 ''c1'')]\<rparr>))" for w
    by (simp add: process_call_def c1 fn s3_url_nonempty refresh_url_def vd_refreshing_def hook)
  let ?w0 = "start_world {} 1000"
  obtain w1 where
    dv: "downloadVideo ?e ?vd (Some s3_url) (Some ''2024-03-01_c1_weekly_sync.mp4'') 0 3 2000
           (?w0\<lparr>requests := requests ?w0 @ [(now ?w0, put_octet gong0 ''c1'')]\<rparr>)
         = Some (Inr (Some ''exports/videos/2024-03-01_c1_weekly_sync.mp4''), w1)"
    and fl: "files w1 = {''exports/videos'', ''exports/videos/2024-03-01_c1_weekly_sync.mp4''}"
    by (simp add: downloadVideo.simps vd_refreshing_def answers_without_url_def model_defs
          s3_url_nonempty insert_commute)
  define ds where "ds = [\<lparr>dl_callId = call_id call1, dl_title = call_title call1,
                           dl_filePath = ''exports/videos/2024-03-01_c1_weekly_sync.mp4''\<rparr>]"
  have run: "process_calls ?e ?vd [call1] [] [] ?w0 = Some (ds, [], w1)"
    by (simp add: pc dv record_outcome_def ds_def)
  have k: "hook_keeps_files ?vd" by (rule export_refresh_keeps_files)
  have dd: "downloadsDir ?vd = ''exports/videos''"
    by (simp add: vd_refreshing_def model_defs)
  have dest: "destination ?vd (Some s3_url) (Some ''2024-03-01_c1_weekly_sync.mp4'')
                = ''exports/videos/2024-03-01_c1_weekly_sync.mp4''"
    by (simp add: destination_def dd path_call1)
  have a: "s3_url \<noteq> [] \<and> downloadsDir ?vd \<in> files w1
      \<and> destination ?vd (Some s3_url) (Some ''2024-03-01_c1_weekly_sync.mp4'') \<in> files w1"
    unfolding dest dd fl by (simp add: s3_url_nonempty)
  have rq: "map snd (new_requests w1 (refresh_all ?vd [call1] w1)) = [put_octet gong0 ''c1'']"
    by (simp add: refresh_all_def refresh_url_def c1 vd_refreshing_def hook new_requests_def)
  note inst = existing_file_is_not_downloaded_again [of s3_url ?vd w1 "Some ''2024-03-01_c1_weekly_sync.mp4''" ?e 0 3 2000 "[call1]"
             "[]" "[]" ?w0 ds]
  from inst a have p1: "downloadVideo ?e ?vd (Some s3_url)
           (Some ''2024-03-01_c1_weekly_sync.mp4'') 0 3 2000 w1
          = Some (Inr (Some ''exports/videos/2024-03-01_c1_weekly_sync.mp4''), w1)"
    unfolding dest by (elim conjE) simp
  from inst k run have p3: "process_calls ?e ?vd [call1] [] [] w1
          = Some (ds, [], refresh_all ?vd [call1] w1)"
    by (elim conjE) simp
  from run p3 rq p1 show ?thesis
    by (intro exI [where x = ds] exI [where x = w1] conjI)
qed

subsection \<open>C1: one outcome for every call\<close>

text \<open>
  C1, as stated, says that every input list yields its outcomes and that the method
  returns the successes. When every request is answered 429, the download of the first
  call is restarted without end: the loop never completes, no outcome is produced and
  the method never returns. The same happens when a request succeeds and the stream of
  its response does not end. And when the file of the failures cannot be written, the
  method throws after the loop instead of returning the successes.
\<close>

theorem endless_rate_limiting_yields_no_outcome:
  "process_calls (rejecting (http_error 429 None)) vd0 [call1] [] []
       (start_world {''exports/videos''} 1000) = None
   \<and> downloadVideosFromExtensiveCalls (rejecting (http_error 429 None)) vd0 (Some [call1])
       (start_world {''exports/videos''} 1000) = None
   \<and> downloadVideosFromExtensiveCalls stream_breaks vd0 (Some [call1])
       (start_world {''exports/videos''} 1000) = None
   \<and> downloadVideosFromExtensiveCalls no_write vd0 (Some [call_without_video])
       (start_world {''exports''} 1000)
     = Some (Inl (Error ''ENOENT: no such file or directory''), start_world {''exports''} 1000)"
proof -
  let ?e = "rejecting (http_error 429 None)"
  let ?w = "start_world {''exports/videos''} 1000"
  have all: "\<forall>n r. \<exists>err. net ?e n r = Rejected err \<and> is_429 err"
    by (simp add: rejecting_def env_of_def http_error_def is_429_def)
  have st: "downloadsDir vd0 \<in> files ?w" by (simp add: model_defs)
  have fn0: "call_filename ?e call1 s3_url = ''2024-03-01_c1_weekly_sync.mp4''"
    by (simp add: rejecting_def call1_filename)
  have nf: "destination vd0 (Some s3_url) (Some (call_filename ?e call1 s3_url)) \<notin> files ?w"
    unfolding fn0 by (simp add: destination_def model_defs)
  have dv: "downloadVideo ?e vd0 (Some s3_url) (Some (call_filename ?e call1 s3_url)) 0 3 2000 ?w
              = None"
    by (rule downloadVideo_429_forever [OF all s3_url_nonempty st nf])
  have c1: "truthy (call_videoUrl call1)" "the (call_videoUrl call1) = s3_url"
    "refresh_url vd0 call1 s3_url ?w = (s3_url, ?w)"
    by (simp_all add: call_defs s3_url_nonempty vd0_def)
  have pc: "process_call ?e vd0 call1 ?w = None"
    unfolding process_call_unfold [OF c1(1)] c1(2) c1(3) fst_conv snd_conv dv
    by (simp add: record_outcome_def)
  then have "process_calls ?e vd0 [call1] [] [] ?w = None" by simp
  then have stall: "downloadVideosFromExtensiveCalls ?e vd0 (Some [call1]) ?w = None"
    and loop: "process_calls ?e vd0 [call1] [] [] ?w = None"
    by (simp_all add: downloadVideosFromExtensiveCalls_def)
  have fn: "call_filename stream_breaks call1 s3_url = ''2024-03-01_c1_weekly_sync.mp4''"
    by (simp add: call_filename_def formattedDate_def call1_def stream_breaks_def env_of_def
          call_id_def call_title_def template_def fileExt_s3_url sanitize_weekly_sync)
  have dv2: "downloadVideo stream_breaks vd0 (Some s3_url)
               (Some ''2024-03-01_c1_weekly_sync.mp4'') 0 3 2000 ?w = None"
    by (simp add: downloadVideo.simps stream_breaks_def model_defs s3_url_nonempty)
  have "process_call stream_breaks vd0 call1 ?w = None"
    unfolding process_call_unfold [OF c1(1)] c1(2) c1(3) fst_conv snd_conv fn dv2
    by (simp add: record_outcome_def)
  then have broken: "downloadVideosFromExtensiveCalls stream_breaks vd0 (Some [call1]) ?w = None"
    by (simp add: downloadVideosFromExtensiveCalls_def)
  have thrown: "downloadVideosFromExtensiveCalls no_write vd0 (Some [call_without_video])
       (start_world {''exports''} 1000)
     = Some (Inl (Error ''ENOENT: no such file or directory''), start_world {''exports''} 1000)"
    by (simp add: downloadVideosFromExtensiveCalls_def process_call_def call_videoUrl_def
          call_without_video_def no_write_def env_of_def)
  from loop stall broken thrown show ?thesis by (intro conjI)
qed

text \<open>
  C1, amended. Whenever the loop over a list of N calls completes, it has produced
  exactly N outcomes, one for each call in order, each either in the list of successes
  or in the list of failures; the method then returns the list of successes, unless
  the list of failures is not empty and writing it to its file throws. The loop
  completes whenever no request is answered 429 and the stream of every response ends
  (every request is answered, and the refresh callback is a function that returns). An
  argument that is not an array yields the empty list.
\<close>

theorem every_call_yields_one_outcome:
  "(\<forall>ds fs w'. process_calls e vd calls [] [] w = Some (ds, fs, w') \<longrightarrow>
       (\<exists>outs. list_all2 entry_matches calls outs \<and> ds = successes outs \<and> fs = failures outs)
       \<and> length ds + length fs = length calls
       \<and> (fs = [] \<longrightarrow> downloadVideosFromExtensiveCalls e vd (Some calls) w = Some (Inr ds, w'))
       \<and> (fs \<noteq> [] \<and> write_error e (failedPath e w') = None
            \<longrightarrow> downloadVideosFromExtensiveCalls e vd (Some calls) w
                  = Some (Inr ds, w'\<lparr>files := insert (failedPath e w') (files w')\<rparr>))
       \<and> (\<forall>m. fs \<noteq> [] \<and> write_error e (failedPath e w') = Some m
            \<longrightarrow> downloadVideosFromExtensiveCalls e vd (Some calls) w
                  = Some (Inl (Error m), w')))
   \<and> (never_429 e \<and> streams_end e
        \<longrightarrow> (\<exists>ds fs w'. process_calls e vd calls [] [] w = Some (ds, fs, w')))
   \<and> downloadVideosFromExtensiveCalls e vd None w = Some (Inr [], w)"
proof (intro conjI allI impI)
  fix ds fs w'
  assume run: "process_calls e vd calls [] [] w = Some (ds, fs, w')"
  from process_calls_partition [OF run] obtain outs where
    outs: "list_all2 entry_matches calls outs" "ds = successes outs" "fs = failures outs"
    by auto
  then show "\<exists>outs. list_all2 entry_matches calls outs \<and> ds = successes outs
      \<and> fs = failures outs" by blast
  from outs partition_length [of outs] show "length ds + length fs = length calls"
    by (simp add: list_all2_lengthD)
  { assume "fs = []"
    with run show "downloadVideosFromExtensiveCalls e vd (Some calls) w = Some (Inr ds, w')"
      by (simp add: downloadVideosFromExtensiveCalls_def) }
  { assume "fs \<noteq> [] \<and> write_error e (failedPath e w') = None"
    with run show "downloadVideosFromExtensiveCalls e vd (Some calls) w
                  = Some (Inr ds, w'\<lparr>files := insert (failedPath e w') (files w')\<rparr>)"
      by (simp add: downloadVideosFromExtensiveCalls_def) }
  { fix m assume "fs \<noteq> [] \<and> write_error e (failedPath e w') = Some m"
    with run show "downloadVideosFromExtensiveCalls e vd (Some calls) w
                  = Some (Inl (Error m), w')"
      by (simp add: downloadVideosFromExtensiveCalls_def) }
next
  assume "never_429 e \<and> streams_end e"
  then have "never_429 e" "streams_end e" by simp_all
  from process_calls_returns [OF this, of vd calls "[]" "[]" w]
  show "\<exists>ds fs w'. process_calls e vd calls [] [] w = Some (ds, fs, w')" by auto
next
  show "downloadVideosFromExtensiveCalls e vd None w = Some (Inr [], w)"
    by (simp add: downloadVideosFromExtensiveCalls_def)
qed

theorem every_call_yields_one_outcome_witness:
  "never_429 answers_without_url \<and> streams_end answers_without_url
   \<and> (\<exists>ds fs w'. process_calls answers_without_url vd0 [call1, call_without_video] [] []
                     (start_world {} 1000) = Some (ds, fs, w')
         \<and> length ds + length fs = 2
         \<and> map dl_filePath ds = [''exports/videos/2024-03-01_c1_weekly_sync.mp4'']
         \<and> map f_reason fs = [Some ''No video URL in extensive call data'']
         \<and> map_option fst (downloadVideosFromExtensiveCalls answers_without_url vd0
                              (Some [call1, call_without_video]) (start_world {} 1000))
             = Some (Inr ds))"
proof -
  let ?e = answers_without_url
  let ?w = "start_world {} 1000"
  let ?cs = "[call1, call_without_video]"
  have n: "never_429 ?e"
    by (simp add: never_429_def answers_without_url_def env_of_def)
  have se: "streams_end ?e"
    by (simp add: streams_end_def answers_without_url_def env_of_def)
  have fn: "call_filename ?e call1 s3_url = ''2024-03-01_c1_weekly_sync.mp4''"
    by (simp add: answers_without_url_def call1_filename)
  have c1: "truthy (call_videoUrl call1)" "the (call_videoUrl call1) = s3_url"
    "refresh_url vd0 call1 s3_url w = (s3_url, w)" for w
    by (simp_all add: call_defs s3_url_nonempty vd0_def)
  have pc1: "process_call ?e vd0 call1 ?w
          = record_outcome call1 (downloadVideo ?e vd0 (Some s3_url)
              (Some ''2024-03-01_c1_weekly_sync.mp4'') 0 3 2000 ?w)"
    unfolding process_call_unfold [OF c1(1)] c1(2) c1(3) fst_conv snd_conv fn ..
  obtain w1 where
    dv: "downloadVideo ?e vd0 (Some s3_url) (Some ''2024-03-01_c1_weekly_sync.mp4'') 0 3 2000 ?w
         = Some (Inr (Some ''exports/videos/2024-03-01_c1_weekly_sync.mp4''), w1)"
    by (simp add: downloadVideo.simps answers_without_url_def model_defs s3_url_nonempty)
  have pc2: "process_call ?e vd0 call_without_video w1
          = Some (Failed \<lparr>f_callId = Some ''c2'', f_title = ''Unknown Call'',
                           f_reason = Some ''No video URL in extensive call data'',
                           f_error = None\<rparr>, w1)"
    by (simp add: process_call_def call_videoUrl_def call_id_def call_title_def
          call_without_video_def)
  define ds where "ds = [\<lparr>dl_callId = call_id call1, dl_title = call_title call1,
                           dl_filePath = ''exports/videos/2024-03-01_c1_weekly_sync.mp4''\<rparr>]"
  define fs where "fs = [\<lparr>f_callId = Some ''c2'', f_title = ''Unknown Call'',
                           f_reason = Some ''No video URL in extensive call data'',
                           f_error = None\<rparr>]"
  have run: "process_calls ?e vd0 ?cs [] [] ?w = Some (ds, fs, w1)"
    by (simp add: pc1 dv pc2 record_outcome_def ds_def fs_def)
  have wr: "fs \<noteq> [] \<and> write_error ?e (failedPath ?e w1) = None"
    by (simp add: fs_def answers_without_url_def env_of_def)
  note inst = every_call_yields_one_outcome [of ?e vd0 ?cs ?w]
  from inst run have len: "length ds + length fs = length ?cs"
    by (elim conjE allE [where x = ds]) blast
  from inst run wr have ret: "downloadVideosFromExtensiveCalls ?e vd0 (Some ?cs) ?w
      = Some (Inr ds, w1\<lparr>files := insert (failedPath ?e w1) (files w1)\<rparr>)"
    by (elim conjE allE [where x = ds]) blast
  from n se run len ret show ?thesis
    by (intro conjI exI [where x = ds] exI [where x = fs] exI [where x = w1])
       (simp_all add: ds_def fs_def)
qed

end
